theory Spec2Isabelle
  imports Main "HOL-Library.Word"
begin

section \<open>DevLog database layer (src/lib/devlog/db.ts)\<close>

text \<open>
  A shallow embedding of the persistence layer of DevLog: the three SQLite tables
  (entries, attachments, counters), the uploads directory on disk, and the exported
  functions of \<^verbatim>\<open>db.ts\<close> as functions on an explicit store.

  Conventions of the embedding.
  \<^item> A table is the list of its rows in rowid order; \<^verbatim>\<open>.get()\<close> is the first matching
    row, \<^verbatim>\<open>.all()\<close> the matching rows, \<^verbatim>\<open>.run()\<close> an updated table.
  \<^item> Columns with a CHECK constraint over an enumeration are datatypes; a nullable
    column is an \<open>option\<close>.
  \<^item> \<^verbatim>\<open>datetime('now')\<close> has a resolution of one second. The wall clock is an
    explicit argument, in milliseconds; a stored timestamp is the number of whole
    seconds, whose order is the order of the \<^verbatim>\<open>YYYY-MM-DD HH:MM:SS\<close> texts.
  \<^item> \<^verbatim>\<open>Math.random().toString(36)\<close> is an explicit argument of \<open>addAttachment\<close>.
  \<^item> An absolute, normalised path is the list of its segments. The file system is
    a partial map from paths to nodes; its calls fail only for the reasons the
    shape of the tree gives (no permissions, no full disk).
  \<^item> An exception is a value \<open>Inl e\<close>; a function that can throw after it has
    changed the store returns the store too.
  \<^item> \<open>next_number\<close>, row ids and sizes are unbounded integers. SQLite holds them
    in 64 bits and JavaScript reads them exactly below \<open>2 ^ 53\<close>; statements on
    the text of an identifier carry that bound.
  The store is an opened database: \<open>getDb\<close> is represented by \<open>initial_store\<close>, the
  store its first call creates.
\<close>

subsection \<open>types.ts\<close>

datatype EntryType = Change_request | Bug_report | Note

datatype Priority = low | medium | high | critical

datatype StorageType = filesystem | blob

type_synonym bytes = "8 word list"

type_synonym path = "string list"

type_synonym timestamp = nat

record Attachment =
  at_id :: int
  at_entryId :: string
  at_filename :: string
  at_originalName :: string
  at_mimeType :: string
  at_sizeBytes :: int
  at_storageType :: StorageType
  at_filePath :: "path option"
  at_createdAt :: timestamp

record DevLogEntry =
  de_id :: int
  de_entryId :: string
  de_type :: EntryType
  de_title :: string
  de_description :: string
  de_priority :: "Priority option"
  de_isComplete :: bool
  de_submittedBy :: "string option"
  de_pageUrl :: string
  de_pagePath :: string
  de_userAgent :: "string option"
  de_createdAt :: timestamp
  de_updatedAt :: timestamp
  de_attachments :: "Attachment list"

record CreateEntryDto =
  c_type :: EntryType
  c_title :: string
  c_description :: "string option"
  c_priority :: "Priority option"
  c_submittedBy :: "string option"
  c_pageUrl :: string
  c_pagePath :: string
  c_userAgent :: "string option"

text \<open>\<open>priority?: Priority | null\<close>: \<open>None\<close> is an omitted field, \<open>Some None\<close> is null.\<close>

record UpdateEntryDto =
  u_title :: "string option"
  u_description :: "string option"
  u_priority :: "Priority option option"
  u_isComplete :: "bool option"

record EntryListResponse =
  r_entries :: "DevLogEntry list"
  r_total :: nat
  r_openCount :: nat

record CountResponse =
  n_openCount :: nat
  n_totalCount :: nat

subsection \<open>Rows, files and the store\<close>

record EntryRow =
  er_id :: int
  er_entry_id :: string
  er_type :: EntryType
  er_title :: string
  er_description :: string
  er_priority :: "Priority option"
  er_is_complete :: int
  er_page_url :: string
  er_page_path :: string
  er_user_agent :: "string option"
  er_created_at :: timestamp
  er_updated_at :: timestamp

record AttachmentRow =
  ar_id :: int
  ar_entry_id :: string
  ar_filename :: string
  ar_original_name :: string
  ar_mime_type :: string
  ar_size_bytes :: int
  ar_storage_type :: StorageType
  ar_blob_data :: "bytes option"
  ar_file_path :: "path option"
  ar_created_at :: timestamp

datatype node = File bytes | Dir

datatype error =
    TypeError
  | SQLITE_CONSTRAINT_UNIQUE
  | SQLITE_CONSTRAINT_FOREIGNKEY
  | EEXIST
  | EISDIR
  | ENOENT
  | ENOTDIR
  | EPERM

text \<open>
  \<open>cwd\<close> is \<^verbatim>\<open>process.cwd()\<close> and \<open>env_storage_type\<close> is
  \<^verbatim>\<open>process.env.DEVLOG_STORAGE_TYPE\<close>. \<open>entries_seq\<close> and \<open>attachments_seq\<close> are the
  rows of \<^verbatim>\<open>sqlite_sequence\<close> that AUTOINCREMENT keeps.
\<close>

record store =
  cwd :: path
  env_storage_type :: "string option"
  entries :: "EntryRow list"
  attachments :: "AttachmentRow list"
  counters :: "EntryType \<Rightarrow> int option"
  entries_seq :: int
  attachments_seq :: int
  fs :: "path \<Rightarrow> node option"

record upload =
  f_name :: string
  f_type :: string
  f_size :: int
  f_buffer :: bytes

record ListOptions =
  o_pagePath :: "string option"
  o_type :: "EntryType option"
  o_includeComplete :: "bool option"

subsection \<open>JavaScript and Node primitives\<close>

text \<open>Truthiness of an optional string: undefined and the empty string are falsy.\<close>

definition truthy :: "string option \<Rightarrow> bool" where
  "truthy s = (case s of None \<Rightarrow> False | Some x \<Rightarrow> x \<noteq> [])"

text \<open>\<^verbatim>\<open>s || ''\<close> and \<^verbatim>\<open>s || null\<close>.\<close>

definition or_empty :: "string option \<Rightarrow> string" where
  "or_empty s = (case s of None \<Rightarrow> [] | Some x \<Rightarrow> (if x \<noteq> [] then x else []))"

definition or_null :: "string option \<Rightarrow> string option" where
  "or_null s = (case s of None \<Rightarrow> None | Some x \<Rightarrow> (if x \<noteq> [] then Some x else None))"

text \<open>\<^verbatim>\<open>String(n)\<close> of an integer, and \<^verbatim>\<open>padStart\<close> with a one-character filler.\<close>

definition digit_char :: "nat \<Rightarrow> char" where
  "digit_char d = ''0123456789'' ! d"

function nat_digits :: "nat \<Rightarrow> string" where
  "nat_digits n =
     (if n < 10 then [digit_char n] else nat_digits (n div 10) @ [digit_char (n mod 10)])"
  by pat_completeness auto
termination
  by (relation "measure id") auto

declare nat_digits.simps [simp del]

definition String_num :: "int \<Rightarrow> string" where
  "String_num n = (if n < 0 then CHR ''-'' # nat_digits (nat (- n)) else nat_digits (nat n))"

definition padStart :: "nat \<Rightarrow> char \<Rightarrow> string \<Rightarrow> string" where
  "padStart k c s = replicate (k - length s) c @ s"

text \<open>
  \<^verbatim>\<open>path.join(base, s)\<close> for an absolute, normalised \<open>base\<close>: the segments of \<open>s\<close>
  are walked from \<open>base\<close>, an empty segment and \<^verbatim>\<open>.\<close> stay, \<^verbatim>\<open>..\<close> goes up.
\<close>

fun split_slash :: "string \<Rightarrow> string list" where
  "split_slash [] = [[]]"
| "split_slash (c # cs) =
     (if c = CHR ''/'' then [] # split_slash cs
      else (case split_slash cs of [] \<Rightarrow> [[c]] | s # ss \<Rightarrow> (c # s) # ss))"

definition path_step :: "path \<Rightarrow> string \<Rightarrow> path" where
  "path_step p seg =
     (if seg = [] \<or> seg = ''.'' then p else if seg = ''..'' then butlast p else p @ [seg])"

definition path_join :: "path \<Rightarrow> string \<Rightarrow> path" where
  "path_join base s = foldl path_step base (split_slash s)"

text \<open>The root is a directory and has no node of its own.\<close>

definition is_dir :: "(path \<Rightarrow> node option) \<Rightarrow> path \<Rightarrow> bool" where
  "is_dir f p = (p = [] \<or> f p = Some Dir)"

definition is_file :: "(path \<Rightarrow> node option) \<Rightarrow> path \<Rightarrow> bool" where
  "is_file f p = (case f p of Some (File b) \<Rightarrow> True | _ \<Rightarrow> False)"

definition existsSync :: "(path \<Rightarrow> node option) \<Rightarrow> path \<Rightarrow> bool" where
  "existsSync f p = (p = [] \<or> f p \<noteq> None)"

definition readFileSync :: "(path \<Rightarrow> node option) \<Rightarrow> path \<Rightarrow> error + bytes" where
  "readFileSync f p =
     (case f p of
        Some (File b) \<Rightarrow> Inr b
      | Some Dir \<Rightarrow> Inl EISDIR
      | None \<Rightarrow> (if p = [] then Inl EISDIR else Inl ENOENT))"

definition unlinkSync :: "(path \<Rightarrow> node option) \<Rightarrow> path \<Rightarrow> error + (path \<Rightarrow> node option)" where
  "unlinkSync f p =
     (case f p of
        Some (File b) \<Rightarrow> Inr (f(p := None))
      | Some Dir \<Rightarrow> Inl EPERM
      | None \<Rightarrow> (if p = [] then Inl EPERM else Inl ENOENT))"

text \<open>\<^verbatim>\<open>fs.rmSync(p, { recursive: true, force: true })\<close>: the node and all below it.\<close>

definition under :: "path \<Rightarrow> path \<Rightarrow> bool" where
  "under d p = (take (length d) p = d)"

definition rmSync :: "(path \<Rightarrow> node option) \<Rightarrow> path \<Rightarrow> (path \<Rightarrow> node option)" where
  "rmSync f d = (\<lambda>p. if under d p then None else f p)"

text \<open>\<^verbatim>\<open>fs.mkdirSync(p, { recursive: true })\<close>: every missing ancestor is created.\<close>

definition ancestors :: "path \<Rightarrow> path list" where
  "ancestors p = map (\<lambda>k. take k p) [1..<Suc (length p)]"

definition mkdirSync :: "(path \<Rightarrow> node option) \<Rightarrow> path \<Rightarrow> error + (path \<Rightarrow> node option)" where
  "mkdirSync f p =
     (if list_ex (is_file f) (ancestors p)
      then Inl (if is_file f p then EEXIST else ENOTDIR)
      else Inr (\<lambda>q. if q \<in> set (ancestors p) then Some Dir else f q))"

definition writeFileSync ::
  "(path \<Rightarrow> node option) \<Rightarrow> path \<Rightarrow> bytes \<Rightarrow> error + (path \<Rightarrow> node option)" where
  "writeFileSync f p b =
     (if is_dir f p then Inl EISDIR
      else if \<not> is_dir f (butlast p) then Inl (if is_file f (butlast p) then ENOTDIR else ENOENT)
      else Inr (f(p \<mapsto> File b)))"

text \<open>\<^verbatim>\<open>datetime('now')\<close> at the clock reading \<open>ms\<close>.\<close>

definition datetime_now :: "nat \<Rightarrow> timestamp" where
  "datetime_now ms = ms div 1000"

subsection \<open>Paths and configuration\<close>

text \<open>\<^verbatim>\<open>path.resolve(process.cwd(), '..', '.devlog', 'uploads')\<close>.\<close>

definition getUploadsDir :: "store \<Rightarrow> path" where
  "getUploadsDir db = butlast (cwd db) @ [''.devlog'', ''uploads'']"

definition getStorageType :: "store \<Rightarrow> StorageType" where
  "getStorageType db = (if env_storage_type db = Some ''blob'' then blob else filesystem)"

text \<open>
  The store that the first \<open>getDb\<close> creates where nothing exists yet: both directories,
  the three empty tables and one counter row per type.
\<close>

definition initial_store :: "path \<Rightarrow> string option \<Rightarrow> store" where
  "initial_store dir env =
     \<lparr> cwd = dir, env_storage_type = env, entries = [], attachments = [],
       counters = (\<lambda>t. Some 1), entries_seq = 0, attachments_seq = 0,
       fs = (\<lambda>q. if q \<in> set (ancestors (butlast dir @ [''.devlog'', ''uploads'']))
                 then Some Dir else None) \<rparr>"

subsection \<open>Entry ID generation\<close>

fun PREFIXES :: "EntryType \<Rightarrow> string" where
  "PREFIXES Change_request = ''CR''"
| "PREFIXES Bug_report = ''BUG''"
| "PREFIXES Note = ''NOTE''"

definition format_entry_id :: "EntryType \<Rightarrow> int \<Rightarrow> string" where
  "format_entry_id t num = PREFIXES t @ ''-'' @ padStart 3 (CHR ''0'') (String_num num)"

text \<open>
  The UPDATE ... RETURNING statement yields no row when the counter row is missing, and
  reading \<open>row.num\<close> of undefined throws.
\<close>

definition getNextEntryId :: "store \<Rightarrow> EntryType \<Rightarrow> (error + string) \<times> store" where
  "getNextEntryId db t =
     (case counters db t of
        None \<Rightarrow> (Inl TypeError, db)
      | Some next_number \<Rightarrow>
          (Inr (format_entry_id t (next_number + 1 - 1)),
           db\<lparr>counters := (counters db)(t \<mapsto> next_number + 1)\<rparr>))"

subsection \<open>Row mappers\<close>

text \<open>
  \<open>mapEntry\<close> builds no \<open>submittedBy\<close> property, so the field that types.ts
  declares is undefined in every entry the store returns.
\<close>

definition mapEntry :: "EntryRow \<Rightarrow> Attachment list \<Rightarrow> DevLogEntry" where
  "mapEntry row atts =
     \<lparr> de_id = er_id row,
       de_entryId = er_entry_id row,
       de_type = er_type row,
       de_title = er_title row,
       de_description = or_empty (Some (er_description row)),
       de_priority = er_priority row,
       de_isComplete = (er_is_complete row = 1),
       de_submittedBy = None,
       de_pageUrl = er_page_url row,
       de_pagePath = er_page_path row,
       de_userAgent = er_user_agent row,
       de_createdAt = er_created_at row,
       de_updatedAt = er_updated_at row,
       de_attachments = atts \<rparr>"

definition mapAttachment :: "AttachmentRow \<Rightarrow> Attachment" where
  "mapAttachment row =
     \<lparr> at_id = ar_id row,
       at_entryId = ar_entry_id row,
       at_filename = ar_filename row,
       at_originalName = ar_original_name row,
       at_mimeType = ar_mime_type row,
       at_sizeBytes = ar_size_bytes row,
       at_storageType = ar_storage_type row,
       at_filePath = ar_file_path row,
       at_createdAt = ar_created_at row \<rparr>"

subsection \<open>CRUD operations\<close>

text \<open>
  ORDER BY created_at DESC and ORDER BY created_at ASC. Both sorts are stable: rows with
  equal \<open>created_at\<close> stay in rowid order, in the descending order too.
\<close>

definition order_by_created_at_desc :: "EntryRow list \<Rightarrow> EntryRow list" where
  "order_by_created_at_desc rows = sort_key (\<lambda>r. - int (er_created_at r)) rows"

definition order_by_created_at_asc :: "AttachmentRow list \<Rightarrow> AttachmentRow list" where
  "order_by_created_at_asc rows = sort_key ar_created_at rows"

text \<open>The \<open>conditions\<close> array of \<open>listEntries\<close>, each condition as a predicate on a row.\<close>

definition list_conditions :: "ListOptions \<Rightarrow> (EntryRow \<Rightarrow> bool) list" where
  "list_conditions options =
     (if truthy (o_pagePath options)
      then [\<lambda>e. Some (er_page_path e) = o_pagePath options] else [])
     @ (case o_type options of Some t \<Rightarrow> [\<lambda>e. er_type e = t] | None \<Rightarrow> [])
     @ (if o_includeComplete options \<noteq> Some True then [\<lambda>e. er_is_complete e = 0] else [])"

definition count_conditions :: "ListOptions \<Rightarrow> (EntryRow \<Rightarrow> bool) list" where
  "count_conditions options =
     [\<lambda>e. er_is_complete e = 0]
     @ (if truthy (o_pagePath options)
        then [\<lambda>e. Some (er_page_path e) = o_pagePath options] else [])"

definition select_where :: "('r \<Rightarrow> bool) list \<Rightarrow> 'r list \<Rightarrow> 'r list" where
  "select_where conditions rows = filter (\<lambda>e. list_all (\<lambda>c. c e) conditions) rows"

definition push_attachment ::
  "(string \<Rightarrow> Attachment list option) \<Rightarrow> AttachmentRow \<Rightarrow> (string \<Rightarrow> Attachment list option)" where
  "push_attachment m row =
     m(ar_entry_id row \<mapsto>
         (case m (ar_entry_id row) of None \<Rightarrow> [] | Some existing \<Rightarrow> existing)
         @ [mapAttachment row])"

definition listEntries :: "store \<Rightarrow> ListOptions \<Rightarrow> EntryListResponse" where
  "listEntries db options =
     (let rows = order_by_created_at_desc (select_where (list_conditions options) (entries db));
          entryIds = map er_entry_id rows;
          attachmentRows =
            (if entryIds \<noteq> []
             then order_by_created_at_asc
                    (filter (\<lambda>a. ar_entry_id a \<in> set entryIds) (attachments db))
             else []);
          attachmentMap = foldl push_attachment Map.empty attachmentRows;
          mappedEntries =
            map (\<lambda>e. mapEntry e
                   (case attachmentMap (er_entry_id e) of None \<Rightarrow> [] | Some l \<Rightarrow> l)) rows;
          openCount = length (select_where (count_conditions options) (entries db))
      in \<lparr> r_entries = mappedEntries, r_total = length mappedEntries, r_openCount = openCount \<rparr>)"

definition getEntry :: "store \<Rightarrow> string \<Rightarrow> DevLogEntry option" where
  "getEntry db entryId =
     (case find (\<lambda>e. er_entry_id e = entryId) (entries db) of
        None \<Rightarrow> None
      | Some row \<Rightarrow>
          Some (mapEntry row
                 (map mapAttachment
                    (order_by_created_at_asc
                       (filter (\<lambda>a. ar_entry_id a = entryId) (attachments db))))))"

text \<open>
  AUTOINCREMENT: the new rowid is one more than the largest rowid the table has ever
  held.
\<close>

definition next_rowid :: "int \<Rightarrow> int list \<Rightarrow> int" where
  "next_rowid seq ids = fold max ids seq + 1"

text \<open>
  The INSERT of \<open>createEntry\<close> fails on the UNIQUE constraint of \<open>entry_id\<close>; the counter
  has been advanced by then. The function returns what \<open>getEntry\<close> returns.
  \<^verbatim>\<open>dto.priority || null\<close> is the priority itself: no value of the type is falsy.
\<close>

definition createEntry ::
  "store \<Rightarrow> nat \<Rightarrow> CreateEntryDto \<Rightarrow> (error + DevLogEntry option) \<times> store" where
  "createEntry db now dto =
     (case getNextEntryId db (c_type dto) of
        (Inl e, db1) \<Rightarrow> (Inl e, db1)
      | (Inr entryId, db1) \<Rightarrow>
          if entryId \<in> set (map er_entry_id (entries db1))
          then (Inl SQLITE_CONSTRAINT_UNIQUE, db1)
          else
            (let rowid = next_rowid (entries_seq db1) (map er_id (entries db1));
                 row = \<lparr> er_id = rowid,
                         er_entry_id = entryId,
                         er_type = c_type dto,
                         er_title = c_title dto,
                         er_description = or_empty (c_description dto),
                         er_priority = c_priority dto,
                         er_is_complete = 0,
                         er_page_url = c_pageUrl dto,
                         er_page_path = c_pagePath dto,
                         er_user_agent = or_null (c_userAgent dto),
                         er_created_at = datetime_now now,
                         er_updated_at = datetime_now now \<rparr>;
                 db2 = db1\<lparr>entries := entries db1 @ [row], entries_seq := rowid\<rparr>
             in (Inr (getEntry db2 entryId), db2)))"

text \<open>The \<open>sets\<close> array of \<open>updateEntry\<close>, each assignment as a function on a row.\<close>

definition update_sets :: "nat \<Rightarrow> UpdateEntryDto \<Rightarrow> (EntryRow \<Rightarrow> EntryRow) list" where
  "update_sets now dto =
     [\<lambda>r. r\<lparr>er_updated_at := datetime_now now\<rparr>]
     @ (case u_title dto of Some t \<Rightarrow> [\<lambda>r. r\<lparr>er_title := t\<rparr>] | None \<Rightarrow> [])
     @ (case u_description dto of Some d \<Rightarrow> [\<lambda>r. r\<lparr>er_description := d\<rparr>] | None \<Rightarrow> [])
     @ (case u_priority dto of Some p \<Rightarrow> [\<lambda>r. r\<lparr>er_priority := p\<rparr>] | None \<Rightarrow> [])
     @ (case u_isComplete dto of
          Some c \<Rightarrow> [\<lambda>r. r\<lparr>er_is_complete := (if c then 1 else 0)\<rparr>] | None \<Rightarrow> [])"

definition updateEntry ::
  "store \<Rightarrow> nat \<Rightarrow> string \<Rightarrow> UpdateEntryDto \<Rightarrow> DevLogEntry option \<times> store" where
  "updateEntry db now entryId dto =
     (case getEntry db entryId of
        None \<Rightarrow> (None, db)
      | Some existing \<Rightarrow>
          (let sets = update_sets now dto;
               db1 = db\<lparr>entries :=
                         map (\<lambda>r. if er_entry_id r = entryId then fold (\<lambda>f. f) sets r else r)
                           (entries db)\<rparr>
           in (getEntry db1 entryId, db1)))"

text \<open>\<^verbatim>\<open>try { fs.unlinkSync(p) } catch { }\<close>.\<close>

definition try_unlink :: "(path \<Rightarrow> node option) \<Rightarrow> path \<Rightarrow> (path \<Rightarrow> node option)" where
  "try_unlink f p = (case unlinkSync f p of Inl e \<Rightarrow> f | Inr g \<Rightarrow> g)"

text \<open>
  The DELETE on \<open>entries\<close> removes, by ON DELETE CASCADE, the attachment rows of every
  entry row it removes; \<open>changes\<close> counts the entry rows only.
\<close>

definition deleteEntry :: "store \<Rightarrow> string \<Rightarrow> bool \<times> store" where
  "deleteEntry db entryId =
     (let atts = filter (\<lambda>a. ar_entry_id a = entryId \<and> ar_storage_type a = filesystem)
                   (attachments db);
          fs1 = foldl (\<lambda>f att. case ar_file_path att of None \<Rightarrow> f | Some p \<Rightarrow> try_unlink f p)
                  (fs db) atts;
          entryDir = path_join (getUploadsDir db) entryId;
          fs2 = rmSync fs1 entryDir;
          changes = length (filter (\<lambda>e. er_entry_id e = entryId) (entries db));
          db1 = db\<lparr>fs := fs2,
                   entries := filter (\<lambda>e. er_entry_id e \<noteq> entryId) (entries db),
                   attachments :=
                     (if changes > 0
                      then filter (\<lambda>a. ar_entry_id a \<noteq> entryId) (attachments db)
                      else attachments db)\<rparr>
      in (changes > 0, db1))"

subsection \<open>Attachment operations\<close>

text \<open>The character class \<^verbatim>\<open>[a-zA-Z0-9._-]\<close>.\<close>

definition safe_char :: "char \<Rightarrow> bool" where
  "safe_char c =
     (c \<in> set ''abcdefghijklmnopqrstuvwxyzABCDEFGHIJKLMNOPQRSTUVWXYZ0123456789._-'')"

definition attachment_filename :: "string \<Rightarrow> string \<Rightarrow> string" where
  "attachment_filename rnd name =
     (let randomPrefix = take 6 (drop 2 rnd);
          safeOriginalName = map (\<lambda>c. if safe_char c then c else CHR ''_'') name
      in randomPrefix @ ''-'' @ safeOriginalName)"

text \<open>
  The INSERT into \<open>attachments\<close> fails on the foreign key when no entry has the
  \<open>entry_id\<close>. The row read back is the first with this \<open>entry_id\<close> and \<open>filename\<close>.
\<close>

definition insert_attachment ::
  "store \<Rightarrow> nat \<Rightarrow> string \<Rightarrow> string \<Rightarrow> upload \<Rightarrow> StorageType \<Rightarrow> bytes option \<Rightarrow> path option
     \<Rightarrow> error + store" where
  "insert_attachment db now entryId filename file storageType blobData filePath =
     (if entryId \<notin> set (map er_entry_id (entries db))
      then Inl SQLITE_CONSTRAINT_FOREIGNKEY
      else
        (let rowid = next_rowid (attachments_seq db) (map ar_id (attachments db));
             row = \<lparr> ar_id = rowid,
                     ar_entry_id = entryId,
                     ar_filename = filename,
                     ar_original_name = f_name file,
                     ar_mime_type = f_type file,
                     ar_size_bytes = f_size file,
                     ar_storage_type = storageType,
                     ar_blob_data = blobData,
                     ar_file_path = filePath,
                     ar_created_at = datetime_now now \<rparr>
         in Inr (db\<lparr>attachments := attachments db @ [row], attachments_seq := rowid\<rparr>)))"

definition addAttachment ::
  "store \<Rightarrow> nat \<Rightarrow> string \<Rightarrow> string \<Rightarrow> upload \<Rightarrow> (error + Attachment) \<times> store" where
  "addAttachment db now rnd entryId file =
     (let storageType = getStorageType db;
          filename = attachment_filename rnd (f_name file);
          inserted =
            (if storageType = filesystem
             then
               (let entryDir = path_join (getUploadsDir db) entryId in
                case mkdirSync (fs db) entryDir of
                  Inl e \<Rightarrow> (Inl e, db)
                | Inr fs1 \<Rightarrow>
                    (let filePath = path_join entryDir filename in
                     case writeFileSync fs1 filePath (f_buffer file) of
                       Inl e \<Rightarrow> (Inl e, db\<lparr>fs := fs1\<rparr>)
                     | Inr fs2 \<Rightarrow>
                         (insert_attachment (db\<lparr>fs := fs2\<rparr>) now entryId filename file
                            storageType None (Some filePath),
                          db\<lparr>fs := fs2\<rparr>)))
             else
               (insert_attachment db now entryId filename file storageType
                  (Some (f_buffer file)) None,
                db))
      in case inserted of
           (Inl e, db1) \<Rightarrow> (Inl e, db1)
         | (Inr db2, db1) \<Rightarrow>
             (case find (\<lambda>a. ar_entry_id a = entryId \<and> ar_filename a = filename)
                     (attachments db2) of
                None \<Rightarrow> (Inl TypeError, db2)
              | Some row \<Rightarrow> (Inr (mapAttachment row), db2)))"

definition getAttachment :: "store \<Rightarrow> int \<Rightarrow> error + (Attachment \<times> bytes) option" where
  "getAttachment db i =
     (case find (\<lambda>a. ar_id a = i) (attachments db) of
        None \<Rightarrow> Inr None
      | Some row \<Rightarrow>
          (let attachment = mapAttachment row in
           case (ar_storage_type row, ar_blob_data row) of
             (blob, Some d) \<Rightarrow> Inr (Some (attachment, d))
           | _ \<Rightarrow>
               (case ar_file_path row of
                  None \<Rightarrow> Inr None
                | Some p \<Rightarrow>
                    if existsSync (fs db) p
                    then (case readFileSync (fs db) p of
                            Inl e \<Rightarrow> Inl e
                          | Inr d \<Rightarrow> Inr (Some (attachment, d)))
                    else Inr None)))"

definition deleteAttachment :: "store \<Rightarrow> int \<Rightarrow> bool \<times> store" where
  "deleteAttachment db i =
     (case find (\<lambda>a. ar_id a = i) (attachments db) of
        None \<Rightarrow> (False, db)
      | Some row \<Rightarrow>
          (let fs1 = (case (ar_storage_type row, ar_file_path row) of
                        (filesystem, Some p) \<Rightarrow> try_unlink (fs db) p
                      | _ \<Rightarrow> fs db);
               changes = length (filter (\<lambda>a. ar_id a = i) (attachments db))
           in (changes > 0,
               db\<lparr>fs := fs1, attachments := filter (\<lambda>a. ar_id a \<noteq> i) (attachments db)\<rparr>)))"

subsection \<open>Count\<close>

definition getOpenCount :: "store \<Rightarrow> string option \<Rightarrow> CountResponse" where
  "getOpenCount db pagePath =
     (if truthy pagePath
      then \<lparr> n_openCount =
               length (filter (\<lambda>e. er_is_complete e = 0 \<and> Some (er_page_path e) = pagePath)
                         (entries db)),
             n_totalCount =
               length (filter (\<lambda>e. Some (er_page_path e) = pagePath) (entries db)) \<rparr>
      else \<lparr> n_openCount = length (filter (\<lambda>e. er_is_complete e = 0) (entries db)),
             n_totalCount = length (entries db) \<rparr>)"

section \<open>Notions of the specification\<close>

subsection \<open>Reading an entry identifier\<close>

text \<open>
  The prefix of an identifier is the text before its first hyphen, the numeric suffix the
  text after it; \<open>digits_value\<close> reads a string of decimal digits.
\<close>

definition digit_val :: "char \<Rightarrow> nat" where
  "digit_val c = of_char c - 48"

definition digits_value :: "string \<Rightarrow> nat" where
  "digits_value s = foldl (\<lambda>a c. 10 * a + digit_val c) 0 s"

definition is_digit :: "char \<Rightarrow> bool" where
  "is_digit c = (c \<in> set ''0123456789'')"

definition id_prefix :: "string \<Rightarrow> string" where
  "id_prefix s = takeWhile (\<lambda>c. c \<noteq> CHR ''-'') s"

definition id_suffix :: "string \<Rightarrow> string" where
  "id_suffix s = drop 1 (dropWhile (\<lambda>c. c \<noteq> CHR ''-'') s)"

definition spec_prefix :: "EntryType \<Rightarrow> string" where
  "spec_prefix t = (case t of Change_request \<Rightarrow> ''CR'' | Bug_report \<Rightarrow> ''BUG'' | Note \<Rightarrow> ''NOTE'')"


subsection \<open>Open counts\<close>

text \<open>
  The open count of a scope, as the specification words it for \<open>listEntries\<close>: the
  incomplete entries that match the supplied page path and the supplied type.
\<close>

definition scoped_open_count :: "store \<Rightarrow> string option \<Rightarrow> EntryType option \<Rightarrow> nat" where
  "scoped_open_count db pagePath type =
     length (filter (\<lambda>e. er_is_complete e = 0
                        \<and> (case pagePath of None \<Rightarrow> True | Some p \<Rightarrow> er_page_path e = p)
                        \<and> (case type of None \<Rightarrow> True | Some t \<Rightarrow> er_type e = t))
               (entries db))"

text \<open>
  The open count of a page: the incomplete entries of the page, of every type; all
  incomplete entries when no page path or the empty one is supplied.
\<close>

definition page_open_count :: "store \<Rightarrow> string option \<Rightarrow> nat" where
  "page_open_count db pagePath =
     length (filter (\<lambda>e. er_is_complete e = 0
                        \<and> (case pagePath of None \<Rightarrow> True
                            | Some p \<Rightarrow> p = [] \<or> er_page_path e = p))
               (entries db))"

subsection \<open>The UPDATE statement, row by row\<close>

text \<open>What the UPDATE of \<open>updateEntry\<close> does to one row of the table.\<close>

definition apply_update :: "nat \<Rightarrow> string \<Rightarrow> UpdateEntryDto \<Rightarrow> EntryRow \<Rightarrow> EntryRow" where
  "apply_update now entryId dto r =
     (if er_entry_id r = entryId then fold (\<lambda>f. f) (update_sets now dto) r else r)"

subsection \<open>Constraints of the schema as an invariant\<close>

text \<open>
  What the schema and the store's own statements keep true of every store that starts
  from \<open>initial_store\<close>: each type has a counter row with a positive number; every
  entry carries an identifier that was issued for its type, below the counter; \<open>entry_id\<close>
  is UNIQUE and both \<open>id\<close> columns are primary keys; every attachment references an entry
  (the foreign key); a filesystem row has a path and no bytes, a blob row bytes and no
  path.
\<close>

definition all_types :: "EntryType list" where
  "all_types = [Change_request, Bug_report, Note]"

definition issued :: "store \<Rightarrow> EntryRow \<Rightarrow> bool" where
  "issued db e =
     (case counters db (er_type e) of
        None \<Rightarrow> False
      | Some n \<Rightarrow> er_entry_id e \<in> set (map (format_entry_id (er_type e)) [1..n - 1]))"

definition storage_consistent :: "AttachmentRow \<Rightarrow> bool" where
  "storage_consistent a =
     (case ar_storage_type a of
        filesystem \<Rightarrow> ar_file_path a \<noteq> None \<and> ar_blob_data a = None
      | blob \<Rightarrow> ar_blob_data a \<noteq> None \<and> ar_file_path a = None)"

definition store_inv :: "store \<Rightarrow> bool" where
  "store_inv db =
     (list_all (\<lambda>t. case counters db t of None \<Rightarrow> False | Some n \<Rightarrow> 1 \<le> n) all_types
      \<and> list_all (issued db) (entries db)
      \<and> distinct (map er_entry_id (entries db))
      \<and> distinct (map er_id (entries db))
      \<and> list_all (\<lambda>a. ar_entry_id a \<in> set (map er_entry_id (entries db))) (attachments db)
      \<and> distinct (map ar_id (attachments db))
      \<and> list_all storage_consistent (attachments db))"


subsection \<open>The row that \<open>createEntry\<close> inserts\<close>

definition created_row :: "int \<Rightarrow> string \<Rightarrow> nat \<Rightarrow> CreateEntryDto \<Rightarrow> EntryRow" where
  "created_row rowid entryId now dto =
     \<lparr> er_id = rowid, er_entry_id = entryId, er_type = c_type dto, er_title = c_title dto,
       er_description = or_empty (c_description dto), er_priority = c_priority dto,
       er_is_complete = 0, er_page_url = c_pageUrl dto, er_page_path = c_pagePath dto,
       er_user_agent = or_null (c_userAgent dto), er_created_at = datetime_now now,
       er_updated_at = datetime_now now \<rparr>"


subsection \<open>Equality in the supplied fields\<close>

text \<open>
  An entry equals a creation payload in all supplied fields: the required fields agree,
  and each optional field that the payload has agrees too.
\<close>

definition equal_in_supplied_fields :: "CreateEntryDto \<Rightarrow> DevLogEntry \<Rightarrow> bool" where
  "equal_in_supplied_fields dto e =
     (de_type e = c_type dto \<and> de_title e = c_title dto
      \<and> de_pageUrl e = c_pageUrl dto \<and> de_pagePath e = c_pagePath dto
      \<and> (case c_description dto of None \<Rightarrow> True | Some d \<Rightarrow> de_description e = d)
      \<and> (case c_priority dto of None \<Rightarrow> True | Some p \<Rightarrow> de_priority e = Some p)
      \<and> (case c_submittedBy dto of None \<Rightarrow> True | Some s \<Rightarrow> de_submittedBy e = Some s)
      \<and> (case c_userAgent dto of None \<Rightarrow> True | Some u \<Rightarrow> de_userAgent e = Some u))"

subsection \<open>Sequences of operations\<close>

text \<open>
  The functions of the store that write, as operations, and a run of a store through a
  list of them. An operation that throws leaves the store as the throw found it.
\<close>

datatype operation =
    GetNextEntryId EntryType
  | CreateEntry nat CreateEntryDto
  | UpdateEntry nat string UpdateEntryDto
  | DeleteEntry string
  | AddAttachment nat string string upload
  | DeleteAttachment int

fun perform :: "store \<Rightarrow> operation \<Rightarrow> store" where
  "perform db (GetNextEntryId t) = snd (getNextEntryId db t)"
| "perform db (CreateEntry now dto) = snd (createEntry db now dto)"
| "perform db (UpdateEntry now entryId dto) = snd (updateEntry db now entryId dto)"
| "perform db (DeleteEntry entryId) = snd (deleteEntry db entryId)"
| "perform db (AddAttachment now rnd entryId file) = snd (addAttachment db now rnd entryId file)"
| "perform db (DeleteAttachment i) = snd (deleteAttachment db i)"

definition run :: "store \<Rightarrow> operation list \<Rightarrow> store" where
  "run db ops = foldl perform db ops"

subsection \<open>Attachment round trip\<close>

text \<open>
  \<open>addAttachment\<close> followed by \<open>getAttachment\<close> on the \<open>id\<close> of the returned row: the bytes
  read back. The generated filename is unused when no attachment of the entry has it; the
  upload path is free when no file stands where the directory of the entry or one of its
  ancestors belongs and no directory stands where the file belongs.
\<close>

definition add_then_get :: "store \<Rightarrow> nat \<Rightarrow> string \<Rightarrow> string \<Rightarrow> upload \<Rightarrow> error + bytes option" where
  "add_then_get db now rnd entryId file =
     (case addAttachment db now rnd entryId file of
        (Inl e, db1) \<Rightarrow> Inl e
      | (Inr att, db1) \<Rightarrow>
          (case getAttachment db1 (at_id att) of
             Inl e \<Rightarrow> Inl e
           | Inr None \<Rightarrow> Inr None
           | Inr (Some (a, d)) \<Rightarrow> Inr (Some d)))"

definition filename_unused :: "store \<Rightarrow> string \<Rightarrow> string \<Rightarrow> bool" where
  "filename_unused db entryId filename =
     list_all (\<lambda>a. \<not> (ar_entry_id a = entryId \<and> ar_filename a = filename)) (attachments db)"

definition upload_path_free :: "store \<Rightarrow> string \<Rightarrow> string \<Rightarrow> bool" where
  "upload_path_free db entryId filename =
     (let entryDir = path_join (getUploadsDir db) entryId
      in \<not> list_ex (is_file (fs db)) (ancestors entryDir)
         \<and> fs db (entryDir @ [filename]) \<noteq> Some Dir)"


subsection \<open>The row that \<open>addAttachment\<close> inserts\<close>

definition attachment_row ::
  "int \<Rightarrow> string \<Rightarrow> string \<Rightarrow> nat \<Rightarrow> upload \<Rightarrow> StorageType \<Rightarrow> bytes option \<Rightarrow> path option
     \<Rightarrow> AttachmentRow" where
  "attachment_row rowid entryId filename now file st b p =
     \<lparr> ar_id = rowid, ar_entry_id = entryId, ar_filename = filename,
       ar_original_name = f_name file, ar_mime_type = f_type file, ar_size_bytes = f_size file,
       ar_storage_type = st, ar_blob_data = b, ar_file_path = p,
       ar_created_at = datetime_now now \<rparr>"

subsection \<open>Files of attachments\<close>

text \<open>No directory stands where the file of an attachment belongs.\<close>

definition no_directory_at_file_paths :: "store \<Rightarrow> bool" where
  "no_directory_at_file_paths db =
     list_all (\<lambda>a. case ar_file_path a of None \<Rightarrow> True | Some p \<Rightarrow> \<not> is_dir (fs db) p)
       (attachments db)"

subsection \<open>The unlink loop of \<open>deleteEntry\<close>\<close>

text \<open>The files after the loop over the filesystem rows of the entry.\<close>

definition unlink_files :: "(path \<Rightarrow> node option) \<Rightarrow> AttachmentRow list \<Rightarrow> (path \<Rightarrow> node option)" where
  "unlink_files f atts =
     foldl (\<lambda>f att. case ar_file_path att of None \<Rightarrow> f | Some p \<Rightarrow> try_unlink f p) f atts"

subsection \<open>Stores used as examples\<close>

definition store0 :: store where
  "store0 = initial_store [''srv'', ''app'', ''frontend''] None"


definition bug_dto :: CreateEntryDto where
  "bug_dto =
     \<lparr> c_type = Bug_report, c_title = ''Null pointer on save'', c_description = None,
       c_priority = None, c_submittedBy = None, c_pageUrl = ''http://localhost:3000/a'',
       c_pagePath = ''/a'', c_userAgent = Some ''Mozilla/5.0'' \<rparr>"

text \<open>One open bug report on page \<^verbatim>\<open>/a\<close>, created at clock reading 5000.\<close>

definition store1 :: store where
  "store1 = snd (createEntry store0 5000 bug_dto)"

text \<open>An update of the title alone, the entry of \<open>store1\<close> as \<open>getEntry\<close> returns it.\<close>

definition title_dto :: UpdateEntryDto where
  "title_dto = \<lparr> u_title = Some ''Crash on save'', u_description = None, u_priority = None,
                  u_isComplete = None \<rparr>"

definition bug1 :: DevLogEntry where
  "bug1 = \<lparr> de_id = 1, de_entryId = ''BUG-001'', de_type = Bug_report,
        de_title = ''Null pointer on save'', de_description = [], de_priority = None,
        de_isComplete = False, de_submittedBy = None,
        de_pageUrl = ''http://localhost:3000/a'', de_pagePath = ''/a'',
        de_userAgent = Some ''Mozilla/5.0'', de_createdAt = 5, de_updatedAt = 5,
        de_attachments = [] \<rparr>"

text \<open>A note whose user agent is the empty string, and the entry created from it.\<close>

definition note_dto :: CreateEntryDto where
  "note_dto =
     \<lparr> c_type = Note, c_title = ''Check the footer'', c_description = Some ''On mobile'',
       c_priority = None, c_submittedBy = None, c_pageUrl = ''http://localhost:3000/b'',
       c_pagePath = ''/b'', c_userAgent = Some [] \<rparr>"

definition note1 :: DevLogEntry where
  "note1 = \<lparr> de_id = 1, de_entryId = ''NOTE-001'', de_type = Note,
        de_title = ''Check the footer'', de_description = ''On mobile'', de_priority = None,
        de_isComplete = False, de_submittedBy = None,
        de_pageUrl = ''http://localhost:3000/b'', de_pagePath = ''/b'',
        de_userAgent = None, de_createdAt = 5, de_updatedAt = 5,
        de_attachments = [] \<rparr>"

text \<open>An entry is created and deleted after an identifier has been allocated.\<close>

definition reuse_ops :: "operation list" where
  "reuse_ops = [CreateEntry 5000 bug_dto, DeleteEntry ''BUG-002'']"

text \<open>
  A store in blob mode with the same bug report, two uploads of the same name, and the
  store after the first upload under the random text \<^verbatim>\<open>0.abc123\<close>.
\<close>

definition store0b :: store where
  "store0b = initial_store [''srv'', ''app'', ''frontend''] (Some ''blob'')"

definition store1b :: store where
  "store1b = snd (createEntry store0b 5000 bug_dto)"

definition file_a :: upload where
  "file_a = \<lparr> f_name = ''a.txt'', f_type = ''text/plain'', f_size = 1, f_buffer = [1] \<rparr>"

definition file_b :: upload where
  "file_b = \<lparr> f_name = ''a.txt'', f_type = ''text/plain'', f_size = 1, f_buffer = [2] \<rparr>"

definition store2b :: store where
  "store2b = snd (addAttachment store1b 6000 ''0.abc123'' ''BUG-001'' file_a)"

definition shot :: upload where
  "shot = \<lparr> f_name = ''shot 1.png'', f_type = ''image/png'', f_size = 3,
            f_buffer = [137, 80, 78] \<rparr>"

text \<open>
  The store with one screenshot attached to the bug report in filesystem mode, and the
  same store after the file has been removed behind the back of the store.
\<close>

definition shot_path :: path where
  "shot_path = [''srv'', ''app'', ''.devlog'', ''uploads'', ''BUG-001'', ''k3x9q2-shot_1.png'']"

definition shot_row :: AttachmentRow where
  "shot_row = attachment_row 1 ''BUG-001'' ''k3x9q2-shot_1.png'' 6000 shot filesystem None
                (Some shot_path)"

definition store_a :: store where
  "store_a = snd (addAttachment store1 6000 ''0.k3x9q2z7'' ''BUG-001'' shot)"

definition store_gone :: store where
  "store_gone = store_a\<lparr>fs := (fs store_a)(shot_path := None)\<rparr>"


section \<open>Properties\<close>

subsection \<open>Decimal digits\<close>

lemma lt10_cases: "d < 10 \<Longrightarrow> d = 0 \<or> d = 1 \<or> d = 2 \<or> d = 3 \<or> d = 4 \<or> d = 5 \<or> d = 6 \<or> d = 7 \<or> d = 8 \<or> d = (9::nat)"
  by arith

lemma digit_val_digit_char: "d < 10 \<Longrightarrow> digit_val (digit_char d) = d"
  by (drule lt10_cases) (auto simp: digit_val_def digit_char_def)

lemma is_digit_digit_char: "d < 10 \<Longrightarrow> is_digit (digit_char d)"
  by (drule lt10_cases) (auto simp: is_digit_def digit_char_def)

lemma digits_value_append: "digits_value (s @ [c]) = 10 * digits_value s + digit_val c"
  by (simp add: digits_value_def)

lemma digits_value_nat_digits: "digits_value (nat_digits n) = n"
proof (induction n rule: nat_digits.induct)
  case (1 n)
  show ?case
  proof (cases "n < 10")
    case True
    then show ?thesis
      by (simp add: nat_digits.simps [of n] digits_value_def digit_val_digit_char)
  next
    case False
    with 1 show ?thesis
      by (simp add: nat_digits.simps [of n] digits_value_append digit_val_digit_char)
  qed
qed

lemma all_digits_nat_digits: "list_all is_digit (nat_digits n)"
proof (induction n rule: nat_digits.induct)
  case (1 n)
  then show ?case
    by (cases "n < 10") (simp_all add: nat_digits.simps [of n] is_digit_digit_char)
qed

lemma digits_value_zeros: "digits_value (replicate k (CHR ''0'') @ s) = digits_value s"
proof -
  have "foldl (\<lambda>a c. 10 * a + digit_val c) 0 (replicate k (CHR ''0'')) = 0"
    by (induction k) (simp_all add: digit_val_def)
  then show ?thesis by (simp add: digits_value_def)
qed

lemma length_nat_digits_pos: "0 < length (nat_digits n)"
  by (subst nat_digits.simps) simp

lemma length_nat_digits_le3: "length (nat_digits n) \<le> 3 \<longleftrightarrow> n \<le> 999"
proof
  assume "n \<le> 999"
  then show "length (nat_digits n) \<le> 3"
    by (simp add: nat_digits.simps [of n] nat_digits.simps [of "n div 10"] nat_digits.simps [of "n div 10 div 10"])
next
  assume a: "length (nat_digits n) \<le> 3"
  show "n \<le> 999"
  proof (rule ccontr)
    assume "\<not> n \<le> 999"
    then have "\<not> n < 10" "\<not> n div 10 < 10" "\<not> n div 10 div 10 < 10" by arith+
    then have "length (nat_digits n) = length (nat_digits (n div 10 div 10 div 10)) + 3"
      by (simp add: nat_digits.simps [of n] nat_digits.simps [of "n div 10"] nat_digits.simps [of "n div 10 div 10"])
    with a length_nat_digits_pos [of "n div 10 div 10 div 10"] show False by simp
  qed
qed

lemma no_dash_PREFIXES: "CHR ''-'' \<notin> set (PREFIXES t)"
  by (cases t) simp_all

lemma id_prefix_format: "id_prefix (format_entry_id t n) = PREFIXES t"
  by (simp add: id_prefix_def format_entry_id_def takeWhile_append no_dash_PREFIXES) 

lemma id_suffix_format: "id_suffix (format_entry_id t n) = padStart 3 (CHR ''0'') (String_num n)"
  by (cases t) (simp_all add: id_suffix_def format_entry_id_def)


lemma id_suffix_nonneg:
  assumes "0 \<le> n"
  shows "id_suffix (format_entry_id t n) = replicate (3 - length (nat_digits (nat n))) (CHR ''0'') @ nat_digits (nat n)"
  using assms by (simp add: id_suffix_format padStart_def String_num_def)

lemma format_entry_id_split:
  "format_entry_id t n = spec_prefix t @ ''-'' @ id_suffix (format_entry_id t n)"
  by (subst id_suffix_format) (cases t; simp add: format_entry_id_def spec_prefix_def)

lemma all_digits_zeros: "list_all is_digit (replicate k (CHR ''0''))"
  by (induction k) (simp_all add: is_digit_def)

lemma suffix_facts:
  assumes "0 \<le> n"
  shows "list_all is_digit (id_suffix (format_entry_id t n))"
    and "digits_value (id_suffix (format_entry_id t n)) = nat n"
    and "length (id_suffix (format_entry_id t n)) = max 3 (length (nat_digits (nat n)))"
    and "999 < n \<Longrightarrow> id_suffix (format_entry_id t n) = nat_digits (nat n)"
proof -
  note s = id_suffix_nonneg [OF assms, of t]
  show "list_all is_digit (id_suffix (format_entry_id t n))"
    by (simp add: s all_digits_zeros all_digits_nat_digits)
  show "digits_value (id_suffix (format_entry_id t n)) = nat n"
    by (simp add: s digits_value_zeros digits_value_nat_digits)
  show "length (id_suffix (format_entry_id t n)) = max 3 (length (nat_digits (nat n)))"
    by (simp add: s)
  show "id_suffix (format_entry_id t n) = nat_digits (nat n)" if "999 < n"
  proof -
    from that have "\<not> nat n \<le> 999" by simp
    then have "\<not> length (nat_digits (nat n)) \<le> 3" by (simp add: length_nat_digits_le3)
    then show ?thesis by (simp add: s)
  qed
qed


subsection \<open>Identifier allocation\<close>

text \<open>
  Claim C2. For every entry type, \<open>getNextEntryId\<close> returns the counter value it found,
  written after the prefix of the type (CR, BUG, NOTE) and a hyphen, in decimal digits
  padded with zeros to three digits and wider above 999; the next call for the same type
  returns the number that is greater by exactly one. The counter value is one the store
  can hold and JavaScript reads exactly.
\<close>

theorem getNextEntryId_format:
  assumes "counters db t = Some n" and "0 \<le> n" and "n + 1 < 2 ^ 53"
  shows "\<exists>id1 db1 id2 db2.
           getNextEntryId db t = (Inr id1, db1) \<and> getNextEntryId db1 t = (Inr id2, db2)
         \<and> id1 = spec_prefix t @ ''-'' @ id_suffix id1
         \<and> id2 = spec_prefix t @ ''-'' @ id_suffix id2
         \<and> list_all is_digit (id_suffix id1)
         \<and> digits_value (id_suffix id1) = nat n
         \<and> length (id_suffix id1) = max 3 (length (nat_digits (nat n)))
         \<and> (n \<le> 999 \<longrightarrow> length (id_suffix id1) = 3)
         \<and> (999 < n \<longrightarrow> id_suffix id1 = nat_digits (nat n) \<and> 3 < length (id_suffix id1))
         \<and> digits_value (id_suffix id2) = digits_value (id_suffix id1) + 1"
proof -
  define db1 where "db1 = db\<lparr>counters := (counters db)(t \<mapsto> n + 1)\<rparr>"
  define db2 where "db2 = db1\<lparr>counters := (counters db1)(t \<mapsto> n + 1 + 1)\<rparr>"
  let ?id1 = "format_entry_id t n" and ?id2 = "format_entry_id t (n + 1)"
  have g1: "getNextEntryId db t = (Inr ?id1, db1)"
    using assms(1) by (simp add: getNextEntryId_def db1_def)
  have c1: "counters db1 t = Some (n + 1)" by (simp add: db1_def)
  have "getNextEntryId db1 t = (Inr (format_entry_id t (n + 1 + 1 - 1)), db2)"
    by (simp only: getNextEntryId_def c1 option.case db2_def)
  moreover have "n + 1 + 1 - 1 = n + 1" by simp
  ultimately have g2: "getNextEntryId db1 t = (Inr ?id2, db2)" by (simp only:)
  have n1: "0 \<le> n + 1" using assms(2) by simp
  have len: "length (id_suffix ?id1) = max 3 (length (nat_digits (nat n)))"
    by (rule suffix_facts(3) [OF assms(2)])
  have small: "n \<le> 999 \<longrightarrow> length (id_suffix ?id1) = 3"
  proof
    assume "n \<le> 999"
    then have "nat n \<le> 999" by simp
    then have "length (nat_digits (nat n)) \<le> 3" by (simp add: length_nat_digits_le3)
    with len show "length (id_suffix ?id1) = 3" by simp
  qed
  have big: "999 < n \<longrightarrow> id_suffix ?id1 = nat_digits (nat n) \<and> 3 < length (id_suffix ?id1)"
  proof
    assume b: "999 < n"
    then have "\<not> nat n \<le> 999" by simp
    then have "\<not> length (nat_digits (nat n)) \<le> 3" by (simp add: length_nat_digits_le3)
    with suffix_facts(4) [OF assms(2) b, of t] show "id_suffix ?id1 = nat_digits (nat n) \<and> 3 < length (id_suffix ?id1)"
      by simp
  qed
  have succ: "digits_value (id_suffix ?id2) = digits_value (id_suffix ?id1) + 1"
    using assms(2) by (simp add: suffix_facts(2) [OF assms(2)] suffix_facts(2) [OF n1] nat_add_distrib)
  show ?thesis
  proof (intro exI conjI)
    show "getNextEntryId db t = (Inr ?id1, db1)" by (rule g1)
    show "getNextEntryId db1 t = (Inr ?id2, db2)" by (rule g2)
    show "?id1 = spec_prefix t @ ''-'' @ id_suffix ?id1" by (rule format_entry_id_split)
    show "?id2 = spec_prefix t @ ''-'' @ id_suffix ?id2" by (rule format_entry_id_split)
    show "list_all is_digit (id_suffix ?id1)" by (rule suffix_facts(1) [OF assms(2)])
    show "digits_value (id_suffix ?id1) = nat n" by (rule suffix_facts(2) [OF assms(2)])
    show "length (id_suffix ?id1) = max 3 (length (nat_digits (nat n)))" by (rule len)
    show "n \<le> 999 \<longrightarrow> length (id_suffix ?id1) = 3" by (rule small)
    show "999 < n \<longrightarrow> id_suffix ?id1 = nat_digits (nat n) \<and> 3 < length (id_suffix ?id1)"
      by (rule big)
    show "digits_value (id_suffix ?id2) = digits_value (id_suffix ?id1) + 1" by (rule succ)
  qed
qed


theorem getNextEntryId_format_witness:
  "counters store0 Bug_report = Some 1 \<and> (0::int) \<le> 1 \<and> (1::int) + 1 < 2 ^ 53
   \<and> fst (getNextEntryId store0 Bug_report) = Inr ''BUG-001''
   \<and> fst (getNextEntryId (snd (getNextEntryId store0 Bug_report)) Bug_report) = Inr ''BUG-002''
   \<and> (\<exists>id1 db1 id2 db2.
         getNextEntryId store0 Bug_report = (Inr id1, db1)
       \<and> getNextEntryId db1 Bug_report = (Inr id2, db2)
       \<and> id1 = spec_prefix Bug_report @ ''-'' @ id_suffix id1
       \<and> digits_value (id_suffix id1) = 1
       \<and> length (id_suffix id1) = 3
       \<and> digits_value (id_suffix id2) = digits_value (id_suffix id1) + 1)"
proof -
  have c: "counters store0 Bug_report = Some 1" by (simp add: store0_def initial_store_def)
  have p1: "(0::int) \<le> 1" and p2: "(1::int) + 1 < 2 ^ 53" by simp_all
  have d: "format_entry_id Bug_report 1 = ''BUG-001''" "format_entry_id Bug_report 2 = ''BUG-002''"
    by code_simp+
  have g1: "getNextEntryId store0 Bug_report =
      (Inr ''BUG-001'', store0\<lparr>counters := (counters store0)(Bug_report \<mapsto> 2)\<rparr>)"
    using c
    by (simp add: getNextEntryId_def d)
  have g2: "fst (getNextEntryId (snd (getNextEntryId store0 Bug_report)) Bug_report) = Inr ''BUG-002''"
    unfolding g1
    by (simp add: getNextEntryId_def d)
  from getNextEntryId_format [OF c p1 p2] obtain id1 db1 id2 db2 where
    h: "getNextEntryId store0 Bug_report = (Inr id1, db1)"
       "getNextEntryId db1 Bug_report = (Inr id2, db2)"
       "id1 = spec_prefix Bug_report @ ''-'' @ id_suffix id1"
       "digits_value (id_suffix id1) = nat 1"
       "(1::int) \<le> 999 \<longrightarrow> length (id_suffix id1) = 3"
       "digits_value (id_suffix id2) = digits_value (id_suffix id1) + 1"
    by (elim exE conjE)
  have "\<exists>id1 db1 id2 db2.
         getNextEntryId store0 Bug_report = (Inr id1, db1)
       \<and> getNextEntryId db1 Bug_report = (Inr id2, db2)
       \<and> id1 = spec_prefix Bug_report @ ''-'' @ id_suffix id1
       \<and> digits_value (id_suffix id1) = 1
       \<and> length (id_suffix id1) = 3
       \<and> digits_value (id_suffix id2) = digits_value (id_suffix id1) + 1"
    using h by (intro exI [of _ id1] exI [of _ db1] exI [of _ id2] exI [of _ db2]) simp
  with c p1 p2 g1 g2 show ?thesis by (simp only: fst_conv simp_thms)
qed

subsection \<open>Example stores, evaluated\<close>

lemma format_examples:
  "format_entry_id Bug_report 1 = ''BUG-001''"
  "format_entry_id Bug_report 2 = ''BUG-002''"
  "format_entry_id Note 1 = ''NOTE-001''"
  "format_entry_id Change_request 1 = ''CR-001''"
  by code_simp+

lemma entries_store1:
  "entries store1 =
     [\<lparr> er_id = 1, er_entry_id = ''BUG-001'', er_type = Bug_report,
        er_title = ''Null pointer on save'', er_description = [], er_priority = None,
        er_is_complete = 0, er_page_url = ''http://localhost:3000/a'', er_page_path = ''/a'',
        er_user_agent = Some ''Mozilla/5.0'', er_created_at = 5, er_updated_at = 5 \<rparr>]"
  by (simp add: store1_def createEntry_def getNextEntryId_def store0_def initial_store_def
      format_examples bug_dto_def next_rowid_def or_empty_def or_null_def datetime_now_def Let_def)


subsection \<open>Listing and counting\<close>

lemma openCount_eq:
  "r_openCount (listEntries db options) = page_open_count db (o_pagePath options)"
  by (simp add: listEntries_def Let_def count_conditions_def select_where_def page_open_count_def truthy_def
      split: option.splits) 


text \<open>
  Claim C1 as stated fails: the count query of \<open>listEntries\<close> has no condition on the type.
  With one open bug report on page \<^verbatim>\<open>/a\<close>, a listing of the notes of that page reports
  an open count of one, and no open note exists.
\<close>

theorem listEntries_openCount_counterexample:
  "r_openCount (listEntries store1 \<lparr> o_pagePath = Some ''/a'', o_type = Some Note, o_includeComplete = None \<rparr>)
     \<noteq> scoped_open_count store1 (Some ''/a'') (Some Note)"
  by (simp add: openCount_eq page_open_count_def scoped_open_count_def entries_store1)



text \<open>
  Claim C1, amended. The open count that \<open>listEntries\<close> returns is the number of incomplete
  entries of the supplied page (of every page when no page path or the empty one is
  supplied), whatever their type; it is the same for every type filter and for either
  value of \<open>includeComplete\<close>.
\<close>

theorem listEntries_openCount_page_scope:
  "r_openCount (listEntries db options) = page_open_count db (o_pagePath options)
   \<and> r_openCount (listEntries db (options\<lparr>o_type := t, o_includeComplete := c\<rparr>))
       = r_openCount (listEntries db options)"
  by (simp add: openCount_eq)

theorem listEntries_openCount_page_scope_witness:
  "r_openCount (listEntries store1 \<lparr> o_pagePath = Some ''/a'', o_type = Some Note, o_includeComplete = None \<rparr>) = 1
   \<and> r_openCount (listEntries store1 \<lparr> o_pagePath = Some ''/a'', o_type = None, o_includeComplete = Some True \<rparr>) = 1
   \<and> page_open_count store1 (Some ''/a'') = 1"
proof -
  let ?o = "\<lparr> o_pagePath = Some ''/a'', o_type = Some Note, o_includeComplete = None \<rparr>"
  have p: "page_open_count store1 (Some ''/a'') = 1"
    by (simp add: page_open_count_def entries_store1)
  from listEntries_openCount_page_scope [where db = store1 and options = ?o and t = None and c = "Some True"] p
  show ?thesis by simp
qed

lemma select_where_Nil: "select_where [] rows = rows"
  by (simp add: select_where_def)

lemma order_desc_ties:
  "er_created_at a = er_created_at b \<Longrightarrow> order_by_created_at_desc [a, b] = [a, b]"
  "er_created_at a < er_created_at b \<Longrightarrow> order_by_created_at_desc [a, b] = [b, a]"
  by (simp_all add: order_by_created_at_desc_def)

lemma set_order_desc: "set (order_by_created_at_desc rows) = set rows"
  by (simp add: order_by_created_at_desc_def)

lemma length_order_desc: "length (order_by_created_at_desc rows) = length rows"
  by (simp add: order_by_created_at_desc_def)

lemma de_entryId_mapEntry: "de_entryId (mapEntry e l) = er_entry_id e"
  by (simp add: mapEntry_def)

lemma entryIds_listEntries:
  "map de_entryId (r_entries (listEntries db options)) =
     map er_entry_id (order_by_created_at_desc (select_where (list_conditions options) (entries db)))"
  by (simp add: listEntries_def Let_def o_def de_entryId_mapEntry)


text \<open>
  Claim C10. An empty page path is no page filter: \<open>listEntries\<close> returns what it returns
  without a page path, so with no other filter the entries of all pages, and
  \<open>getOpenCount\<close> returns the counts over all entries.
\<close>

theorem empty_pagePath_is_no_filter:
  "listEntries db (options\<lparr>o_pagePath := Some []\<rparr>) = listEntries db (options\<lparr>o_pagePath := None\<rparr>)
   \<and> getOpenCount db (Some []) = getOpenCount db None
   \<and> getOpenCount db (Some []) =
         \<lparr> n_openCount = length (filter (\<lambda>e. er_is_complete e = 0) (entries db)),
           n_totalCount = length (entries db) \<rparr>
   \<and> set (map de_entryId (r_entries (listEntries db
          \<lparr> o_pagePath = Some [], o_type = None, o_includeComplete = Some True \<rparr>)))
       = set (map er_entry_id (entries db))
   \<and> r_total (listEntries db \<lparr> o_pagePath = Some [], o_type = None, o_includeComplete = Some True \<rparr>)
       = length (entries db)"
proof (intro conjI)
  show "listEntries db (options\<lparr>o_pagePath := Some []\<rparr>) = listEntries db (options\<lparr>o_pagePath := None\<rparr>)"
    by (simp add: listEntries_def list_conditions_def count_conditions_def truthy_def)
  show "getOpenCount db (Some []) = getOpenCount db None"
    by (simp add: getOpenCount_def truthy_def)
  show "getOpenCount db (Some []) =
         \<lparr> n_openCount = length (filter (\<lambda>e. er_is_complete e = 0) (entries db)),
           n_totalCount = length (entries db) \<rparr>"
    by (simp add: getOpenCount_def truthy_def)
  let ?all = "\<lparr> o_pagePath = Some [], o_type = None, o_includeComplete = Some True \<rparr>"
  have c: "list_conditions ?all = []"
    by (simp add: list_conditions_def truthy_def)
  show "set (map de_entryId (r_entries (listEntries db ?all))) = set (map er_entry_id (entries db))"
    by (simp only: entryIds_listEntries c select_where_Nil set_map set_order_desc)
  show "r_total (listEntries db ?all) = length (entries db)"
    by (simp add: listEntries_def Let_def c select_where_Nil length_order_desc)
qed

theorem empty_pagePath_is_no_filter_witness:
  "map er_page_path (entries store1) = [''/a'']
   \<and> set (map de_entryId (r_entries (listEntries store1
         \<lparr> o_pagePath = Some [], o_type = None, o_includeComplete = Some True \<rparr>)))
       = {''BUG-001''}
   \<and> r_total (listEntries store1
         \<lparr> o_pagePath = Some [], o_type = None, o_includeComplete = Some True \<rparr>) = 1
   \<and> getOpenCount store1 (Some []) = \<lparr> n_openCount = 1, n_totalCount = 1 \<rparr>
   \<and> getOpenCount store1 (Some []) = getOpenCount store1 None"
proof -
  let ?all = "\<lparr> o_pagePath = Some [], o_type = None, o_includeComplete = Some True \<rparr>"
  note t = empty_pagePath_is_no_filter [of store1 ?all]
  have p: "map er_page_path (entries store1) = [''/a'']" by (simp add: entries_store1)
  have i: "set (map er_entry_id (entries store1)) = {''BUG-001''}" by (simp add: entries_store1)
  have k: "length (entries store1) = 1" by (simp add: entries_store1)
  have o: "length (filter (\<lambda>e. er_is_complete e = 0) (entries store1)) = 1"
    by (simp add: entries_store1)
  from t have s: "set (map de_entryId (r_entries (listEntries store1 ?all)))
      = set (map er_entry_id (entries store1))"
    by (elim conjE)
  from t have n: "r_total (listEntries store1 ?all) = length (entries store1)"
    by (elim conjE)
  from t have c: "getOpenCount store1 (Some []) =
         \<lparr> n_openCount = length (filter (\<lambda>e. er_is_complete e = 0) (entries store1)),
           n_totalCount = length (entries store1) \<rparr>"
    by (elim conjE)
  from t have g: "getOpenCount store1 (Some []) = getOpenCount store1 None"
    by (elim conjE)
  from s i have 1: "set (map de_entryId (r_entries (listEntries store1 ?all))) = {''BUG-001''}"
    by (simp only:)
  from n k have 2: "r_total (listEntries store1 ?all) = 1" by (simp only:)
  from c k o have 3: "getOpenCount store1 (Some []) = \<lparr> n_openCount = 1, n_totalCount = 1 \<rparr>"
    by (simp only:)
  from p 1 2 3 g show ?thesis by (intro conjI)
qed

subsection \<open>Updating an entry\<close>

lemma find_map_same:
  assumes "\<And>x. P (f x) = P x"
  shows "find P (map f xs) = map_option f (find P xs)"
  using assms by (induction xs) simp_all

lemma fold_update_sets:
  "fold (\<lambda>f. f) (update_sets now dto) r =
     r\<lparr> er_updated_at := datetime_now now,
        er_title := (case u_title dto of None \<Rightarrow> er_title r | Some t \<Rightarrow> t),
        er_description := (case u_description dto of None \<Rightarrow> er_description r | Some d \<Rightarrow> d),
        er_priority := (case u_priority dto of None \<Rightarrow> er_priority r | Some p \<Rightarrow> p),
        er_is_complete := (case u_isComplete dto of None \<Rightarrow> er_is_complete r
                           | Some c \<Rightarrow> (if c then 1 else 0)) \<rparr>"
  by (simp add: update_sets_def split: option.splits)

lemma er_entry_id_apply_update [simp]: "er_entry_id (apply_update now i dto r) = er_entry_id r"
  by (simp add: apply_update_def fold_update_sets)

lemma updateEntry_alt:
  "updateEntry db now entryId dto =
     (case getEntry db entryId of None \<Rightarrow> (None, db)
      | Some existing \<Rightarrow>
          (getEntry (db\<lparr>entries := map (apply_update now entryId dto) (entries db)\<rparr>) entryId,
           db\<lparr>entries := map (apply_update now entryId dto) (entries db)\<rparr>))"
  by (simp add: updateEntry_def Let_def apply_update_def [abs_def] split: option.splits)

lemma getEntry_Some_iff:
  "getEntry db i = Some e \<longleftrightarrow>
     (\<exists>row. find (\<lambda>r. er_entry_id r = i) (entries db) = Some row
        \<and> e = mapEntry row (map mapAttachment (order_by_created_at_asc
                 (filter (\<lambda>a. ar_entry_id a = i) (attachments db)))))"
  by (auto simp: getEntry_def split: option.splits)

lemma getEntry_updated:
  "getEntry (db\<lparr>entries := map (apply_update now i dto) (entries db)\<rparr>) j =
     (case find (\<lambda>r. er_entry_id r = j) (entries db) of None \<Rightarrow> None
      | Some row \<Rightarrow> Some (mapEntry (apply_update now i dto row)
          (map mapAttachment (order_by_created_at_asc
                 (filter (\<lambda>a. ar_entry_id a = j) (attachments db))))))"
  by (simp add: getEntry_def find_map_same split: option.splits)

lemma attachments_store1: "attachments store1 = []"
  by (simp add: store1_def createEntry_def getNextEntryId_def store0_def initial_store_def
      format_examples Let_def)

lemma getEntry_store1: "getEntry store1 ''BUG-001'' = Some bug1"
  by (simp add: getEntry_def entries_store1 attachments_store1 mapEntry_def bug1_def
      order_by_created_at_asc_def or_empty_def)

lemma getEntry_store1_missing: "getEntry store1 ''CR-404'' = None"
  by (simp add: getEntry_def entries_store1)


text \<open>
  Claim C4. \<open>updateEntry\<close> on an identifier that no entry has returns null and leaves the
  store as it is. On an existing entry it returns the entry that \<open>getEntry\<close> then returns:
  \<open>title\<close>, \<open>description\<close>, \<open>priority\<close> and \<open>isComplete\<close> take the value of the payload
  where the payload has the field and keep their value where it has not; \<open>id\<close>, \<open>entryId\<close>,
  \<open>type\<close>, \<open>pageUrl\<close>, \<open>pagePath\<close>, \<open>userAgent\<close>, \<open>createdAt\<close> and the attachments keep
  their values; every other entry, the attachments table, the counters and the files are
  unchanged.
\<close>

theorem updateEntry_frame:
  "(getEntry db entryId = None \<longrightarrow> updateEntry db now entryId dto = (None, db))
   \<and> (\<forall>e. getEntry db entryId = Some e \<longrightarrow>
        (\<exists>e' db'. updateEntry db now entryId dto = (Some e', db')
           \<and> getEntry db' entryId = Some e'
           \<and> de_title e' = (case u_title dto of None \<Rightarrow> de_title e | Some t \<Rightarrow> t)
           \<and> de_description e' = (case u_description dto of None \<Rightarrow> de_description e | Some d \<Rightarrow> d)
           \<and> de_priority e' = (case u_priority dto of None \<Rightarrow> de_priority e | Some p \<Rightarrow> p)
           \<and> de_isComplete e' = (case u_isComplete dto of None \<Rightarrow> de_isComplete e | Some c \<Rightarrow> c)
           \<and> de_id e' = de_id e \<and> de_entryId e' = de_entryId e \<and> de_type e' = de_type e
           \<and> de_submittedBy e' = de_submittedBy e
           \<and> de_pageUrl e' = de_pageUrl e \<and> de_pagePath e' = de_pagePath e
           \<and> de_userAgent e' = de_userAgent e \<and> de_createdAt e' = de_createdAt e
           \<and> de_attachments e' = de_attachments e
           \<and> (\<forall>other. other \<noteq> entryId \<longrightarrow> getEntry db' other = getEntry db other)
           \<and> attachments db' = attachments db \<and> counters db' = counters db \<and> fs db' = fs db))"
proof (intro conjI allI impI)
  assume "getEntry db entryId = None"
  then show "updateEntry db now entryId dto = (None, db)" by (simp add: updateEntry_alt)
next
  fix e assume g: "getEntry db entryId = Some e"
  then obtain row where row: "find (\<lambda>r. er_entry_id r = entryId) (entries db) = Some row"
    and e: "e = mapEntry row (map mapAttachment (order_by_created_at_asc
                 (filter (\<lambda>a. ar_entry_id a = entryId) (attachments db))))"
    by (auto simp: getEntry_Some_iff)
  from row have rid: "er_entry_id row = entryId" by (auto simp: find_Some_iff)
  define db' where "db' = db\<lparr>entries := map (apply_update now entryId dto) (entries db)\<rparr>"
  define e' where "e' = mapEntry (apply_update now entryId dto row) (map mapAttachment (order_by_created_at_asc
                 (filter (\<lambda>a. ar_entry_id a = entryId) (attachments db))))"
  have ge: "getEntry db' entryId = Some e'"
    by (simp add: db'_def getEntry_updated row e'_def)
  have u: "updateEntry db now entryId dto = (Some e', db')"
    using g ge by (simp add: updateEntry_alt db'_def)
  have other: "\<forall>other. other \<noteq> entryId \<longrightarrow> getEntry db' other = getEntry db other"
  proof (intro allI impI)
    fix other assume ne: "other \<noteq> entryId"
    show "getEntry db' other = getEntry db other"
    proof (cases "find (\<lambda>r. er_entry_id r = other) (entries db)")
      case None
      then show ?thesis by (simp add: db'_def getEntry_updated) (simp add: getEntry_def)
    next
      case (Some r)
      then have "er_entry_id r = other" by (auto simp: find_Some_iff)
      with ne have "apply_update now entryId dto r = r" by (simp add: apply_update_def)
      with Some show ?thesis by (simp add: db'_def getEntry_updated) (simp add: getEntry_def)
    qed
  qed
  have a: "apply_update now entryId dto row = fold (\<lambda>f. f) (update_sets now dto) row"
    using rid by (simp add: apply_update_def)
  show "\<exists>e' db'. updateEntry db now entryId dto = (Some e', db')
           \<and> getEntry db' entryId = Some e'
           \<and> de_title e' = (case u_title dto of None \<Rightarrow> de_title e | Some t \<Rightarrow> t)
           \<and> de_description e' = (case u_description dto of None \<Rightarrow> de_description e | Some d \<Rightarrow> d)
           \<and> de_priority e' = (case u_priority dto of None \<Rightarrow> de_priority e | Some p \<Rightarrow> p)
           \<and> de_isComplete e' = (case u_isComplete dto of None \<Rightarrow> de_isComplete e | Some c \<Rightarrow> c)
           \<and> de_id e' = de_id e \<and> de_entryId e' = de_entryId e \<and> de_type e' = de_type e
           \<and> de_submittedBy e' = de_submittedBy e
           \<and> de_pageUrl e' = de_pageUrl e \<and> de_pagePath e' = de_pagePath e
           \<and> de_userAgent e' = de_userAgent e \<and> de_createdAt e' = de_createdAt e
           \<and> de_attachments e' = de_attachments e
           \<and> (\<forall>other. other \<noteq> entryId \<longrightarrow> getEntry db' other = getEntry db other)
           \<and> attachments db' = attachments db \<and> counters db' = counters db \<and> fs db' = fs db"
  proof (intro exI conjI)
    show "updateEntry db now entryId dto = (Some e', db')" by (rule u)
    show "getEntry db' entryId = Some e'" by (rule ge)
    show "de_title e' = (case u_title dto of None \<Rightarrow> de_title e | Some t \<Rightarrow> t)"
      by (simp add: e'_def e a fold_update_sets mapEntry_def split: option.splits)
    show "de_description e' = (case u_description dto of None \<Rightarrow> de_description e | Some d \<Rightarrow> d)"
      by (simp add: e'_def e a fold_update_sets mapEntry_def or_empty_def split: option.splits)
    show "de_priority e' = (case u_priority dto of None \<Rightarrow> de_priority e | Some p \<Rightarrow> p)"
      by (simp add: e'_def e a fold_update_sets mapEntry_def split: option.splits)
    show "de_isComplete e' = (case u_isComplete dto of None \<Rightarrow> de_isComplete e | Some c \<Rightarrow> c)"
      by (simp add: e'_def e a fold_update_sets mapEntry_def split: option.splits)
    show "de_id e' = de_id e" "de_entryId e' = de_entryId e" "de_type e' = de_type e"
      "de_submittedBy e' = de_submittedBy e"
      "de_pageUrl e' = de_pageUrl e" "de_pagePath e' = de_pagePath e"
      "de_userAgent e' = de_userAgent e" "de_createdAt e' = de_createdAt e"
      "de_attachments e' = de_attachments e"
      by (simp_all add: e'_def e a fold_update_sets mapEntry_def)
    show "\<forall>other. other \<noteq> entryId \<longrightarrow> getEntry db' other = getEntry db other" by (rule other)
    show "attachments db' = attachments db" "counters db' = counters db" "fs db' = fs db"
      by (simp_all add: db'_def)
  qed
qed


theorem updateEntry_frame_witness:
  "getEntry store1 ''BUG-001'' = Some bug1
   \<and> (\<exists>e' db'. updateEntry store1 9000 ''BUG-001'' title_dto = (Some e', db')
         \<and> de_title e' = ''Crash on save'' \<and> de_description e' = []
         \<and> de_priority e' = None \<and> de_isComplete e' = False
         \<and> de_entryId e' = ''BUG-001'' \<and> de_type e' = Bug_report \<and> de_pagePath e' = ''/a''
         \<and> de_createdAt e' = 5)
   \<and> getEntry store1 ''CR-404'' = None
   \<and> updateEntry store1 9000 ''CR-404'' title_dto = (None, store1)"
proof -
  note t = updateEntry_frame [of store1 _ 9000 title_dto]
  from t [of "''BUG-001''"] getEntry_store1
  obtain e' db' where u: "updateEntry store1 9000 ''BUG-001'' title_dto = (Some e', db')"
    and f: "de_title e' = (case u_title title_dto of None \<Rightarrow> de_title bug1 | Some t \<Rightarrow> t)"
      "de_description e' = (case u_description title_dto of None \<Rightarrow> de_description bug1 | Some d \<Rightarrow> d)"
      "de_priority e' = (case u_priority title_dto of None \<Rightarrow> de_priority bug1 | Some p \<Rightarrow> p)"
      "de_isComplete e' = (case u_isComplete title_dto of None \<Rightarrow> de_isComplete bug1 | Some c \<Rightarrow> c)"
      "de_entryId e' = de_entryId bug1" "de_type e' = de_type bug1"
      "de_pagePath e' = de_pagePath bug1" "de_createdAt e' = de_createdAt bug1"
    by blast
  have "\<exists>e' db'. updateEntry store1 9000 ''BUG-001'' title_dto = (Some e', db')
         \<and> de_title e' = ''Crash on save'' \<and> de_description e' = []
         \<and> de_priority e' = None \<and> de_isComplete e' = False
         \<and> de_entryId e' = ''BUG-001'' \<and> de_type e' = Bug_report \<and> de_pagePath e' = ''/a''
         \<and> de_createdAt e' = 5"
    using u f by (intro exI [of _ e'] exI [of _ db']) (simp add: title_dto_def bug1_def)
  moreover from t [of "''CR-404''"] getEntry_store1_missing
  have "updateEntry store1 9000 ''CR-404'' title_dto = (None, store1)" by blast
  ultimately show ?thesis using getEntry_store1 getEntry_store1_missing by blast
qed


text \<open>
  Claim C5 as stated fails: \<^verbatim>\<open>datetime('now')\<close> counts whole seconds. The entry of \<open>store1\<close>
  was created at clock reading 5000; an update at the later reading 5400 leaves
  \<open>updatedAt\<close> at second 5.
\<close>

theorem updateEntry_updatedAt_counterexample:
  "map_option de_updatedAt (getEntry store1 ''BUG-001'') = Some 5
   \<and> (5000::nat) < 5400
   \<and> map_option de_updatedAt (fst (updateEntry store1 5400 ''BUG-001'' title_dto)) = Some 5"
  unfolding updateEntry_alt getEntry_store1 option.case fst_conv getEntry_updated
  by (simp add: entries_store1 attachments_store1 apply_update_def fold_update_sets mapEntry_def
      datetime_now_def bug1_def title_dto_def)


text \<open>
  Claim C5, amended. Every successful \<open>updateEntry\<close> sets \<open>updatedAt\<close> to the second of the
  clock reading. The new value is strictly greater than the old one exactly when the
  update happens in a later second than the old value, and not smaller exactly when the
  second of the update is not earlier.
\<close>

theorem updateEntry_updatedAt:
  assumes "getEntry db entryId = Some e"
  shows "\<exists>e' db'. updateEntry db now entryId dto = (Some e', db')
           \<and> getEntry db' entryId = Some e'
           \<and> de_updatedAt e' = datetime_now now
           \<and> (de_updatedAt e < de_updatedAt e' \<longleftrightarrow> de_updatedAt e < datetime_now now)
           \<and> (de_updatedAt e \<le> de_updatedAt e' \<longleftrightarrow> de_updatedAt e \<le> datetime_now now)"
proof -
  from assms obtain row where row: "find (\<lambda>r. er_entry_id r = entryId) (entries db) = Some row"
    by (auto simp: getEntry_Some_iff)
  then have rid: "er_entry_id row = entryId" by (auto simp: find_Some_iff)
  define db' where "db' = db\<lparr>entries := map (apply_update now entryId dto) (entries db)\<rparr>"
  define e' where "e' = mapEntry (apply_update now entryId dto row) (map mapAttachment
      (order_by_created_at_asc (filter (\<lambda>a. ar_entry_id a = entryId) (attachments db))))"
  have ge: "getEntry db' entryId = Some e'"
    by (simp add: db'_def getEntry_updated row e'_def)
  have u: "updateEntry db now entryId dto = (Some e', db')"
    using assms ge by (simp add: updateEntry_alt db'_def)
  have t: "de_updatedAt e' = datetime_now now"
    using rid by (simp add: e'_def apply_update_def fold_update_sets mapEntry_def)
  show ?thesis
    using u ge t by (intro exI [of _ e'] exI [of _ db']) simp
qed

theorem updateEntry_updatedAt_witness:
  "getEntry store1 ''BUG-001'' = Some bug1
   \<and> (\<exists>e' db'. updateEntry store1 9000 ''BUG-001'' title_dto = (Some e', db')
          \<and> de_updatedAt e' = 9 \<and> de_updatedAt bug1 < de_updatedAt e')"
proof -
  from updateEntry_updatedAt [OF getEntry_store1, of 9000 title_dto]
  obtain e' db' where u: "updateEntry store1 9000 ''BUG-001'' title_dto = (Some e', db')"
    and t: "de_updatedAt e' = datetime_now 9000" by blast
  have "de_updatedAt e' = 9 \<and> de_updatedAt bug1 < de_updatedAt e'"
    using t by (simp add: datetime_now_def bug1_def)
  with u getEntry_store1 show ?thesis by blast
qed

subsection \<open>The invariant and identifier freshness\<close>

lemma all_types_complete: "t \<in> set all_types"
  by (cases t) (simp_all add: all_types_def)

lemma store_inv_counter:
  assumes "store_inv db"
  obtains n where "counters db t = Some n" and "1 \<le> n"
proof -
  from assms have "list_all (\<lambda>t. case counters db t of None \<Rightarrow> False | Some n \<Rightarrow> 1 \<le> n) all_types"
    by (simp add: store_inv_def)
  with all_types_complete [of t] have "case counters db t of None \<Rightarrow> False | Some n \<Rightarrow> 1 \<le> n"
    by (simp add: list_all_iff)
  with that show thesis by (cases "counters db t") simp_all
qed

lemma store_inv_initial: "store_inv (initial_store dir env)"
  by (simp add: store_inv_def initial_store_def all_types_def)

lemma PREFIXES_inj: "PREFIXES t = PREFIXES t' \<Longrightarrow> t = t'"
  by (cases t; cases t') simp_all

lemma format_entry_id_inj:
  assumes "format_entry_id t n = format_entry_id t' k" and "0 \<le> n" and "0 \<le> k"
  shows "t = t' \<and> n = k"
proof
  from assms(1) have "id_prefix (format_entry_id t n) = id_prefix (format_entry_id t' k)" by simp
  then show "t = t'" by (simp add: id_prefix_format PREFIXES_inj)
  from assms(1) have "digits_value (id_suffix (format_entry_id t n))
      = digits_value (id_suffix (format_entry_id t' k))" by simp
  then have "nat n = nat k"
    by (simp add: suffix_facts(2) [OF assms(2)] suffix_facts(2) [OF assms(3)])
  with assms(2,3) show "n = k" by simp
qed

lemma issued_advance:
  assumes "issued db e" and "counters db t = Some n"
  shows "issued (db\<lparr>counters := (counters db)(t \<mapsto> n + 1)\<rparr>) e"
proof (cases "er_type e = t")
  case True
  with assms show ?thesis by (auto simp: issued_def)
next
  case False
  with assms show ?thesis by (simp add: issued_def)
qed

lemma issued_fresh:
  assumes "issued db e" and "counters db t = Some n" and "1 \<le> n"
  shows "er_entry_id e \<noteq> format_entry_id t n"
proof
  assume eq: "er_entry_id e = format_entry_id t n"
  from assms(1) obtain m k where m: "counters db (er_type e) = Some m"
    and k: "1 \<le> k" "k \<le> m - 1" and i: "er_entry_id e = format_entry_id (er_type e) k"
    by (auto simp: issued_def split: option.splits)
  from eq i have "format_entry_id (er_type e) k = format_entry_id t n" by simp
  from format_entry_id_inj [OF this] k assms(3) have "er_type e = t" "k = n" by simp_all
  with m k assms(2) show False by simp
qed

lemma getNextEntryId_Some:
  assumes "counters db t = Some n"
  shows "getNextEntryId db t =
           (Inr (format_entry_id t n), db\<lparr>counters := (counters db)(t \<mapsto> n + 1)\<rparr>)"
  using assms by (simp add: getNextEntryId_def)

lemma store_inv_advance:
  assumes "store_inv db" and "counters db t = Some n"
  shows "store_inv (db\<lparr>counters := (counters db)(t \<mapsto> n + 1)\<rparr>)"
proof -
  from assms(1) have c: "list_all (\<lambda>t. case counters db t of None \<Rightarrow> False | Some n \<Rightarrow> 1 \<le> n) all_types"
    and i: "list_all (issued db) (entries db)" by (simp_all add: store_inv_def)
  from assms(1,2) have n: "1 \<le> n" by (auto elim: store_inv_counter [of db t])
  have "list_all (\<lambda>u. case ((counters db)(t \<mapsto> n + 1)) u of None \<Rightarrow> False | Some n \<Rightarrow> 1 \<le> n) all_types"
    using c n by (auto simp: list_all_iff)
  moreover have "list_all (issued (db\<lparr>counters := (counters db)(t \<mapsto> n + 1)\<rparr>)) (entries db)"
    using i issued_advance [OF _ assms(2)] by (auto simp: list_all_iff)
  ultimately show ?thesis using assms(1) by (simp add: store_inv_def)
qed

lemma store_inv_getNextEntryId:
  assumes "store_inv db"
  shows "store_inv (snd (getNextEntryId db t))"
proof -
  from assms obtain n where n: "counters db t = Some n" by (rule store_inv_counter)
  with store_inv_advance [OF assms n] show ?thesis by (simp add: getNextEntryId_Some)
qed

lemma fold_max_ge: "(seq::int) \<le> fold max ids seq"
  by (induction ids arbitrary: seq) (auto intro: order_trans [OF max.cobounded2])

lemma fold_max_mem: "(i::int) \<in> set ids \<Longrightarrow> i \<le> fold max ids seq"
proof (induction ids arbitrary: seq)
  case Nil
  then show ?case by simp
next
  case (Cons a ids)
  show ?case
  proof (cases "i = a")
    case True
    have "a \<le> max a seq" by simp
    also have "\<dots> \<le> fold max ids (max a seq)" by (rule fold_max_ge)
    finally show ?thesis using True by simp
  next
    case False
    with Cons show ?thesis by simp
  qed
qed

lemma next_rowid_fresh: "next_rowid seq ids \<notin> set ids"
proof
  assume "next_rowid seq ids \<in> set ids"
  from fold_max_mem [OF this, of seq] show False by (simp add: next_rowid_def)
qed



subsection \<open>Creating an entry\<close>

lemma createEntry_alt:
  assumes "counters db (c_type dto) = Some n"
  shows "createEntry db now dto =
     (let db1 = db\<lparr>counters := (counters db)(c_type dto \<mapsto> n + 1)\<rparr>;
          entryId = format_entry_id (c_type dto) n
      in if entryId \<in> set (map er_entry_id (entries db))
         then (Inl SQLITE_CONSTRAINT_UNIQUE, db1)
         else (let db2 = db1\<lparr>entries := entries db @
                     [created_row (next_rowid (entries_seq db) (map er_id (entries db))) entryId now dto],
                   entries_seq := next_rowid (entries_seq db) (map er_id (entries db))\<rparr>
               in (Inr (getEntry db2 entryId), db2)))"
  by (simp add: createEntry_def getNextEntryId_Some [OF assms] Let_def created_row_def)

lemma find_append_new:
  assumes "\<forall>x \<in> set xs. \<not> P x" and "P y"
  shows "find P (xs @ [y]) = Some y"
  using assms by (induction xs) simp_all

lemma find_None_filter: "find P xs = None \<Longrightarrow> filter P xs = []"
  by (induction xs) (auto split: if_splits)

lemma store_inv_fresh_id:
  assumes "store_inv db" and "counters db t = Some n"
  shows "format_entry_id t n \<notin> set (map er_entry_id (entries db))"
proof
  assume "format_entry_id t n \<in> set (map er_entry_id (entries db))"
  then obtain e where e: "e \<in> set (entries db)" "er_entry_id e = format_entry_id t n" by auto
  from assms(1) e(1) have "issued db e" by (simp add: store_inv_def list_all_iff)
  moreover from assms have "1 \<le> n" by (auto elim: store_inv_counter [of db t])
  ultimately show False using issued_fresh [of db e t n] assms(2) e(2) by simp
qed

lemma store_inv_no_orphans:
  assumes "store_inv db" and "i \<notin> set (map er_entry_id (entries db))"
  shows "filter (\<lambda>a. ar_entry_id a = i) (attachments db) = []"
proof -
  from assms(1) have "\<forall>a \<in> set (attachments db). ar_entry_id a \<in> set (map er_entry_id (entries db))"
    by (simp add: store_inv_def list_all_iff)
  with assms(2) have "\<forall>a \<in> set (attachments db). ar_entry_id a \<noteq> i" by auto
  then show ?thesis by (simp add: filter_empty_conv)
qed

lemma createEntry_result:
  fixes now :: nat and dto :: CreateEntryDto
  assumes inv: "store_inv db" and c: "counters db (c_type dto) = Some n"
  defines "entryId \<equiv> format_entry_id (c_type dto) n"
  defines "rowid \<equiv> next_rowid (entries_seq db) (map er_id (entries db))"
  defines "db2 \<equiv> db\<lparr>counters := (counters db)(c_type dto \<mapsto> n + 1),
                     entries := entries db @ [created_row rowid entryId now dto],
                     entries_seq := rowid\<rparr>"
  shows "createEntry db now dto = (Inr (Some (mapEntry (created_row rowid entryId now dto) [])), db2)"
    and "getEntry db2 entryId = Some (mapEntry (created_row rowid entryId now dto) [])"
proof -
  have fresh: "entryId \<notin> set (map er_entry_id (entries db))"
    unfolding entryId_def by (rule store_inv_fresh_id [OF inv c])
  then have "\<forall>x \<in> set (entries db). \<not> er_entry_id x = entryId" by auto
  then have f: "find (\<lambda>e. er_entry_id e = entryId) (entries db @ [created_row rowid entryId now dto])
      = Some (created_row rowid entryId now dto)"
    by (rule find_append_new) (simp add: created_row_def)
  have a: "filter (\<lambda>a. ar_entry_id a = entryId) (attachments db) = []"
    by (rule store_inv_no_orphans [OF inv fresh])
  show g: "getEntry db2 entryId = Some (mapEntry (created_row rowid entryId now dto) [])"
    by (simp add: getEntry_def db2_def f a order_by_created_at_asc_def)
  have "createEntry db now dto = (Inr (getEntry db2 entryId), db2)"
    using fresh by (simp add: createEntry_alt [OF c] Let_def entryId_def rowid_def db2_def)
  with g show "createEntry db now dto = (Inr (Some (mapEntry (created_row rowid entryId now dto) [])), db2)"
    by simp
qed

lemma store_inv_created:
  assumes inv: "store_inv db" and c: "counters db t = Some n" and "er_type row = t"
    and "er_entry_id row = format_entry_id t n"
    and "er_id row = next_rowid (entries_seq db) (map er_id (entries db))"
  shows "store_inv (db\<lparr>counters := (counters db)(t \<mapsto> n + 1),
                     entries := entries db @ [row], entries_seq := er_id row\<rparr>)"
proof -
  let ?db1 = "db\<lparr>counters := (counters db)(t \<mapsto> n + 1)\<rparr>"
  have inv1: "store_inv ?db1" by (rule store_inv_advance [OF inv c])
  from inv c have n: "1 \<le> n" by (auto elim: store_inv_counter [of db t])
  have "issued ?db1 row"
    using assms(3,4) n by (simp add: issued_def)
  moreover have "er_entry_id row \<notin> set (map er_entry_id (entries db))"
    using store_inv_fresh_id [OF inv c] assms(4) by simp
  moreover have "er_id row \<notin> set (map er_id (entries db))"
    using next_rowid_fresh [of "entries_seq db" "map er_id (entries db)"] assms(5) by simp
  ultimately show ?thesis
    using inv1 by (auto simp: store_inv_def list_all_iff issued_def)
qed


lemma store_inv_createEntry:
  assumes "store_inv db"
  shows "store_inv (snd (createEntry db now dto))"
proof -
  from assms obtain n where c: "counters db (c_type dto) = Some n" by (rule store_inv_counter)
  let ?row = "created_row (next_rowid (entries_seq db) (map er_id (entries db)))
      (format_entry_id (c_type dto) n) now dto"
  have "store_inv (db\<lparr>counters := (counters db)(c_type dto \<mapsto> n + 1),
                     entries := entries db @ [?row], entries_seq := er_id ?row\<rparr>)"
    by (rule store_inv_created [OF assms c]) (simp_all add: created_row_def)
  then show ?thesis
    by (simp add: createEntry_result(1) [OF assms c] created_row_def)
qed

lemma counters_store0: "counters store0 t = Some 1"
  by (simp add: store0_def initial_store_def)

lemma store_inv_store0: "store_inv store0"
  unfolding store0_def by (rule store_inv_initial)

lemma createEntry_note_store0:
  "fst (createEntry store0 5000 note_dto) = Inr (Some note1)"
  "getEntry (snd (createEntry store0 5000 note_dto)) ''NOTE-001'' = Some note1"
proof -
  have c: "counters store0 (c_type note_dto) = Some 1" by (rule counters_store0)
  have i: "format_entry_id (c_type note_dto) 1 = ''NOTE-001''"
    by (simp add: note_dto_def format_examples)
  have r: "mapEntry (created_row (next_rowid (entries_seq store0) (map er_id (entries store0)))
      ''NOTE-001'' 5000 note_dto) [] = note1"
    by (simp add: mapEntry_def created_row_def note_dto_def note1_def
        next_rowid_def store0_def initial_store_def or_empty_def or_null_def datetime_now_def)
  note res = createEntry_result [OF store_inv_store0 c, of 5000]
  show "fst (createEntry store0 5000 note_dto) = Inr (Some note1)"
    using res(1) by (simp add: i r)
  show "getEntry (snd (createEntry store0 5000 note_dto)) ''NOTE-001'' = Some note1"
    using res by (simp add: i r)
qed


text \<open>
  Claim C3 as stated fails: \<^verbatim>\<open>dto.userAgent || null\<close> stores an empty user agent as null.
  A note created with the user agent \<^verbatim>\<open>""\<close> comes back with no user agent, so the entry
  is not equal to the payload in that supplied field.
\<close>

theorem createEntry_supplied_fields_counterexample:
  "fst (createEntry store0 5000 note_dto) = Inr (Some note1)
   \<and> getEntry (snd (createEntry store0 5000 note_dto)) ''NOTE-001'' = Some note1
   \<and> c_userAgent note_dto = Some []
   \<and> de_userAgent note1 = None
   \<and> \<not> equal_in_supplied_fields note_dto note1"
proof -
  have a: "c_userAgent note_dto = Some []" by (simp add: note_dto_def)
  have b: "de_userAgent note1 = None" by (simp add: note1_def)
  have "\<not> equal_in_supplied_fields note_dto note1"
    using a b by (simp add: equal_in_supplied_fields_def)
  with a b createEntry_note_store0 show ?thesis by (intro conjI)
qed


text \<open>
  Claim C3, amended. On a store that satisfies the constraints of the schema, \<open>createEntry\<close>
  succeeds and \<open>getEntry\<close> on the returned identifier yields the returned entry. It
  equals the payload in \<open>type\<close>, \<open>title\<close>, \<open>pageUrl\<close>, \<open>pagePath\<close> and \<open>priority\<close>;
  \<open>description\<close> is the payload's, or the empty string when omitted; \<open>userAgent\<close> is the
  payload's when it is a non-empty string, and absent when omitted or empty;
  \<open>attachments\<close> is empty and \<open>createdAt\<close> equals \<open>updatedAt\<close>. The store satisfies the
  constraints again.
\<close>

theorem createEntry_then_getEntry:
  assumes "store_inv db" and "counters db (c_type dto) = Some n" and "n < 2 ^ 53"
  shows "\<exists>e db'. createEntry db now dto = (Inr (Some e), db')
           \<and> getEntry db' (de_entryId e) = Some e
           \<and> de_entryId e = format_entry_id (c_type dto) n
           \<and> de_type e = c_type dto \<and> de_title e = c_title dto
           \<and> de_pageUrl e = c_pageUrl dto \<and> de_pagePath e = c_pagePath dto
           \<and> de_description e = (case c_description dto of None \<Rightarrow> [] | Some d \<Rightarrow> d)
           \<and> de_priority e = c_priority dto
           \<and> de_userAgent e =
               (case c_userAgent dto of None \<Rightarrow> None
                | Some u \<Rightarrow> if u = [] then None else Some u)
           \<and> de_isComplete e = False
           \<and> de_attachments e = []
           \<and> de_createdAt e = de_updatedAt e \<and> de_createdAt e = datetime_now now
           \<and> store_inv db'"
proof -
  define rowid where "rowid = next_rowid (entries_seq db) (map er_id (entries db))"
  define entryId where "entryId = format_entry_id (c_type dto) n"
  define e where "e = mapEntry (created_row rowid entryId now dto) []"
  define db' where "db' = db\<lparr>counters := (counters db)(c_type dto \<mapsto> n + 1),
       entries := entries db @ [created_row rowid entryId now dto], entries_seq := rowid\<rparr>"
  have c: "createEntry db now dto = (Inr (Some e), db')"
    unfolding e_def db'_def rowid_def entryId_def by (rule createEntry_result(1) [OF assms(1,2)])
  have i: "de_entryId e = entryId" by (simp add: e_def mapEntry_def created_row_def)
  have g: "getEntry db' (de_entryId e) = Some e"
    unfolding i unfolding e_def db'_def rowid_def entryId_def
    by (rule createEntry_result(2) [OF assms(1,2)])
  have inv: "store_inv db'"
    using store_inv_createEntry [OF assms(1), of now dto] c by simp
  show ?thesis
  proof (intro exI conjI)
    show "createEntry db now dto = (Inr (Some e), db')" by (rule c)
    show "getEntry db' (de_entryId e) = Some e" by (rule g)
    show "de_entryId e = format_entry_id (c_type dto) n" by (simp add: i entryId_def)
    show "de_type e = c_type dto" "de_title e = c_title dto" "de_pageUrl e = c_pageUrl dto"
      "de_pagePath e = c_pagePath dto" "de_priority e = c_priority dto" "de_isComplete e = False"
      "de_attachments e = []" "de_createdAt e = de_updatedAt e"
      "de_createdAt e = datetime_now now"
      by (simp_all add: e_def mapEntry_def created_row_def)
    show "de_description e = (case c_description dto of None \<Rightarrow> [] | Some d \<Rightarrow> d)"
      by (simp add: e_def mapEntry_def created_row_def or_empty_def split: option.splits)
    show "de_userAgent e =
               (case c_userAgent dto of None \<Rightarrow> None
                | Some u \<Rightarrow> if u = [] then None else Some u)"
      by (simp add: e_def mapEntry_def created_row_def or_null_def split: option.splits)
    show "store_inv db'" by (rule inv)
  qed
qed

theorem createEntry_then_getEntry_witness:
  "store_inv store0 \<and> counters store0 (c_type bug_dto) = Some 1 \<and> (1::int) < 2 ^ 53
   \<and> (\<exists>e db'. createEntry store0 5000 bug_dto = (Inr (Some e), db')
         \<and> getEntry db' ''BUG-001'' = Some e
         \<and> de_entryId e = ''BUG-001'' \<and> de_title e = ''Null pointer on save''
         \<and> de_description e = [] \<and> de_priority e = None
         \<and> de_userAgent e = Some ''Mozilla/5.0''
         \<and> de_attachments e = [] \<and> de_createdAt e = de_updatedAt e)"
proof -
  have b: "(1::int) < 2 ^ 53" by simp
  from createEntry_then_getEntry [OF store_inv_store0 counters_store0 b, where dto = bug_dto and now = 5000]
  obtain e db' where h: "createEntry store0 5000 bug_dto = (Inr (Some e), db')"
    "getEntry db' (de_entryId e) = Some e"
    "de_entryId e = format_entry_id (c_type bug_dto) 1" "de_title e = c_title bug_dto"
    "de_description e = (case c_description bug_dto of None \<Rightarrow> [] | Some d \<Rightarrow> d)"
    "de_priority e = c_priority bug_dto"
    "de_userAgent e = (case c_userAgent bug_dto of None \<Rightarrow> None
                | Some u \<Rightarrow> if u = [] then None else Some u)"
    "de_attachments e = []" "de_createdAt e = de_updatedAt e"
    by blast
  have "\<exists>e db'. createEntry store0 5000 bug_dto = (Inr (Some e), db')
         \<and> getEntry db' ''BUG-001'' = Some e
         \<and> de_entryId e = ''BUG-001'' \<and> de_title e = ''Null pointer on save''
         \<and> de_description e = [] \<and> de_priority e = None
         \<and> de_userAgent e = Some ''Mozilla/5.0''
         \<and> de_attachments e = [] \<and> de_createdAt e = de_updatedAt e"
    using h by (intro exI [of _ e] exI [of _ db']) (simp add: bug_dto_def format_examples)
  with store_inv_store0 counters_store0 [of "c_type bug_dto"] b show ?thesis by blast
qed

subsection \<open>The invariant is kept by every operation\<close>

lemma store_inv_fs [simp]: "store_inv (db\<lparr>fs := f\<rparr>) = store_inv db"
  by (simp add: store_inv_def issued_def [abs_def])

lemma apply_update_keys [simp]:
  "er_type (apply_update now i dto r) = er_type r"
  "er_id (apply_update now i dto r) = er_id r"
  by (simp_all add: apply_update_def fold_update_sets)


lemma deleteEntry_tables:
  "entries (snd (deleteEntry db i)) = filter (\<lambda>e. er_entry_id e \<noteq> i) (entries db)"
  "attachments (snd (deleteEntry db i)) =
     (if i \<in> set (map er_entry_id (entries db))
      then filter (\<lambda>a. ar_entry_id a \<noteq> i) (attachments db) else attachments db)"
  "counters (snd (deleteEntry db i)) = counters db"
  "fst (deleteEntry db i) = (i \<in> set (map er_entry_id (entries db)))"
proof -
  have "(0 < length (filter (\<lambda>e. er_entry_id e = i) (entries db))) = (i \<in> set (map er_entry_id (entries db)))"
    by (auto simp: filter_empty_conv)
  then show "attachments (snd (deleteEntry db i)) =
     (if i \<in> set (map er_entry_id (entries db))
      then filter (\<lambda>a. ar_entry_id a \<noteq> i) (attachments db) else attachments db)"
    "fst (deleteEntry db i) = (i \<in> set (map er_entry_id (entries db)))"
    by (simp_all add: deleteEntry_def Let_def)
qed (simp_all add: deleteEntry_def Let_def)

lemma store_inv_deleteEntry:
  assumes "store_inv db"
  shows "store_inv (snd (deleteEntry db i))"
proof -
  let ?db = "snd (deleteEntry db i)"
  note t = deleteEntry_tables [of db i]
  from assms have c: "list_all (\<lambda>t. case counters db t of None \<Rightarrow> False | Some n \<Rightarrow> 1 \<le> n) all_types"
    and iss: "\<forall>e \<in> set (entries db). issued db e"
    and d1: "distinct (map er_entry_id (entries db))" and d2: "distinct (map er_id (entries db))"
    and fk: "\<forall>a \<in> set (attachments db). ar_entry_id a \<in> set (map er_entry_id (entries db))"
    and d3: "distinct (map ar_id (attachments db))"
    and sc: "\<forall>a \<in> set (attachments db). storage_consistent a"
    by (simp_all add: store_inv_def list_all_iff)
  have i1: "issued ?db e = issued db e" for e by (simp add: issued_def t)
  have fk': "\<forall>a \<in> set (attachments ?db). ar_entry_id a \<in> set (map er_entry_id (entries ?db))"
  proof (cases "i \<in> set (map er_entry_id (entries db))")
    case True
    with fk show ?thesis by (auto simp: t)
  next
    case False
    then have "filter (\<lambda>e. er_entry_id e \<noteq> i) (entries db) = entries db"
      by (auto simp: filter_id_conv)
    with fk False show ?thesis by (simp add: t)
  qed
  have "distinct (map ar_id (attachments ?db))" "\<forall>a \<in> set (attachments ?db). storage_consistent a"
    using d3 sc by (auto simp: t distinct_map_filter)
  moreover have "distinct (map er_entry_id (entries ?db))" "distinct (map er_id (entries ?db))"
    "\<forall>e \<in> set (entries ?db). issued ?db e"
    using d1 d2 iss by (auto simp: t(1) i1 distinct_map_filter)
  moreover have "list_all (\<lambda>t. case counters ?db t of None \<Rightarrow> False | Some n \<Rightarrow> 1 \<le> n) all_types"
    using c by (simp add: t)
  ultimately show ?thesis using fk' by (simp add: store_inv_def list_all_iff)
qed


lemma insert_attachment_inv:
  assumes "store_inv db" and "insert_attachment db now i fn file st b p = Inr db'"
    and "case st of filesystem \<Rightarrow> p \<noteq> None \<and> b = None | blob \<Rightarrow> b \<noteq> None \<and> p = None"
  shows "store_inv db'"
proof -
  let ?rowid = "next_rowid (attachments_seq db) (map ar_id (attachments db))"
  from assms(2) have i: "i \<in> set (map er_entry_id (entries db))"
    by (auto simp: insert_attachment_def split: if_splits)
  have f: "?rowid \<notin> set (map ar_id (attachments db))" by (rule next_rowid_fresh)
  from assms(2) i have "db' = db\<lparr>attachments := attachments db @
      [\<lparr> ar_id = ?rowid, ar_entry_id = i, ar_filename = fn, ar_original_name = f_name file,
         ar_mime_type = f_type file, ar_size_bytes = f_size file, ar_storage_type = st,
         ar_blob_data = b, ar_file_path = p, ar_created_at = datetime_now now \<rparr>],
      attachments_seq := ?rowid\<rparr>"
    by (auto simp: insert_attachment_def Let_def split: if_splits)
  with assms(1,3) i f show ?thesis
    by (auto simp: store_inv_def list_all_iff issued_def storage_consistent_def
        split: StorageType.splits)
qed

lemma store_inv_addAttachment:
  assumes "store_inv db"
  shows "store_inv (snd (addAttachment db now rnd i file))"
proof (cases "getStorageType db")
  case blob
  show ?thesis
  proof (cases "insert_attachment db now i (attachment_filename rnd (f_name file)) file blob (Some (f_buffer file)) None")
    case (Inl e)
    with blob assms show ?thesis by (simp add: addAttachment_def Let_def)
  next
    case (Inr db2)
    from insert_attachment_inv [OF assms Inr] have "store_inv db2" by simp
    with blob Inr show ?thesis by (simp add: addAttachment_def Let_def split: option.splits)
  qed
next
  case filesystem
  let ?dir = "path_join (getUploadsDir db) i"
  let ?fn = "attachment_filename rnd (f_name file)"
  show ?thesis
  proof (cases "mkdirSync (fs db) ?dir")
    case (Inl e)
    with filesystem assms show ?thesis by (simp add: addAttachment_def Let_def)
  next
    case mk: (Inr fs1)
    show ?thesis
    proof (cases "writeFileSync fs1 (path_join ?dir ?fn) (f_buffer file)")
      case (Inl e)
      with filesystem mk assms show ?thesis by (simp add: addAttachment_def Let_def)
    next
      case wr: (Inr fs2)
      have inv2: "store_inv (db\<lparr>fs := fs2\<rparr>)" using assms by simp
      show ?thesis
      proof (cases "insert_attachment (db\<lparr>fs := fs2\<rparr>) now i ?fn file filesystem None (Some (path_join ?dir ?fn))")
        case (Inl e)
        with filesystem mk wr inv2 show ?thesis by (simp add: addAttachment_def Let_def)
      next
        case (Inr db2)
        from insert_attachment_inv [OF inv2 Inr] have "store_inv db2" by simp
        with filesystem mk wr Inr show ?thesis
          by (simp add: addAttachment_def Let_def split: option.splits)
      qed
    qed
  qed
qed



subsection \<open>Counters\<close>

lemma counters_getNextEntryId:
  "counters (snd (getNextEntryId db t)) =
     (case counters db t of None \<Rightarrow> counters db | Some n \<Rightarrow> (counters db)(t \<mapsto> n + 1))"
  by (simp add: getNextEntryId_def split: option.splits)

lemma counters_createEntry:
  "counters (snd (createEntry db now dto)) = counters (snd (getNextEntryId db (c_type dto)))"
  by (simp add: createEntry_def getNextEntryId_def Let_def split: option.splits)

lemma counters_updateEntry: "counters (snd (updateEntry db now i dto)) = counters db"
  by (simp add: updateEntry_alt split: option.splits)

lemma counters_deleteAttachment: "counters (snd (deleteAttachment db i)) = counters db"
  by (simp add: deleteAttachment_def Let_def split: option.splits)

lemma counters_insert_attachment:
  "insert_attachment db now i fn file st b p = Inr db' \<Longrightarrow> counters db' = counters db"
  by (auto simp: insert_attachment_def Let_def split: if_splits)

lemma counters_addAttachment: "counters (snd (addAttachment db now rnd i file)) = counters db"
proof -
  have a: "counters db2 = counters db"
    if "insert_attachment (db\<lparr>fs := f\<rparr>) now i fn file st b p = Inr db2" for f fn st b p db2
    using counters_insert_attachment [OF that] by simp
  have b: "counters db2 = counters db"
    if "insert_attachment db now i fn file st b p = Inr db2" for fn st b p db2
    using counters_insert_attachment [OF that] by simp
  show ?thesis
    by (auto simp: addAttachment_def Let_def a b split: sum.splits option.splits)
qed

lemma counters_perform:
  assumes "counters db t = Some n"
  shows "\<exists>m. counters (perform db op) t = Some m \<and> n \<le> m"
proof (cases op)
  case (GetNextEntryId u)
  with assms show ?thesis by (auto simp: counters_getNextEntryId split: option.splits)
next
  case (CreateEntry now dto)
  with assms show ?thesis
    by (auto simp: counters_createEntry counters_getNextEntryId split: option.splits)
qed (simp_all add: assms counters_updateEntry deleteEntry_tables counters_addAttachment
      counters_deleteAttachment)

lemma counters_run:
  assumes "counters db t = Some n"
  shows "\<exists>m. counters (run db ops) t = Some m \<and> n \<le> m"
  using assms
proof (induction ops arbitrary: db n)
  case Nil
  then show ?case by (simp add: run_def)
next
  case (Cons op ops)
  from counters_perform [OF Cons.prems, of op]
  obtain k where k: "counters (perform db op) t = Some k" "n \<le> k" by blast
  from Cons.IH [OF k(1)] obtain m where "counters (run (perform db op) ops) t = Some m" "k \<le> m"
    by blast
  with k(2) show ?case by (auto simp: run_def)
qed



lemma format_bug_3: "format_entry_id Bug_report 3 = ''BUG-003''"
  by code_simp

lemma tables_store0: "entries store0 = []" "attachments store0 = []"
  by (simp_all add: store0_def initial_store_def)

lemma reuse_run:
  "counters (run (snd (getNextEntryId store0 Bug_report)) reuse_ops) Bug_report = Some 3"
  "entries (run (snd (getNextEntryId store0 Bug_report)) reuse_ops) = []"
proof -
  let ?db1 = "snd (getNextEntryId store0 Bug_report)"
  have c1: "counters ?db1 Bug_report = Some 2" and e1: "entries ?db1 = []"
    by (simp_all add: getNextEntryId_Some [OF counters_store0] tables_store0)
  have i1: "store_inv ?db1" by (rule store_inv_getNextEntryId [OF store_inv_store0])
  have t: "c_type bug_dto = Bug_report" by (simp add: bug_dto_def)
  have c1': "counters ?db1 (c_type bug_dto) = Some 2" by (simp only: t c1)
  note r = createEntry_result(1) [OF i1 c1', of 5000]
  show "counters (run ?db1 reuse_ops) Bug_report = Some 3"
    by (simp add: run_def reuse_ops_def deleteEntry_tables r t)
  show "entries (run ?db1 reuse_ops) = []"
    by (simp add: run_def reuse_ops_def deleteEntry_tables r e1 t format_examples created_row_def)
qed


text \<open>
  Claim C9. No operation of the store lowers or resets a counter: \<open>deleteEntry\<close> leaves
  all counters as they are, and after any sequence of operations the counter of a type
  is at least what it was. \<open>getNextEntryId\<close> returns the counter value and raises the
  counter by one, so after any sequence of operations, deletions among them, the counter
  is greater than a number allocated before, and the identifier allocated next differs
  from the one allocated before.
\<close>

theorem counters_never_reused:
  assumes "counters db t = Some n" and "0 \<le> n"
  shows "counters (snd (deleteEntry db entryId)) = counters db
     \<and> (\<exists>m. counters (run db ops) t = Some m \<and> n \<le> m)
     \<and> getNextEntryId db t =
         (Inr (format_entry_id t n), db\<lparr>counters := (counters db)(t \<mapsto> n + 1)\<rparr>)
     \<and> (\<exists>m. counters (run (snd (getNextEntryId db t)) ops) t = Some m \<and> n < m
           \<and> (m < 2 ^ 53 \<longrightarrow>
                fst (getNextEntryId (run (snd (getNextEntryId db t)) ops) t)
                  = Inr (format_entry_id t m)
                \<and> format_entry_id t m \<noteq> format_entry_id t n))"
proof (intro conjI)
  show "counters (snd (deleteEntry db entryId)) = counters db" by (rule deleteEntry_tables(3))
  show "\<exists>m. counters (run db ops) t = Some m \<and> n \<le> m" by (rule counters_run [OF assms(1)])
  show g: "getNextEntryId db t =
         (Inr (format_entry_id t n), db\<lparr>counters := (counters db)(t \<mapsto> n + 1)\<rparr>)"
    by (rule getNextEntryId_Some [OF assms(1)])
  let ?db1 = "snd (getNextEntryId db t)"
  have "counters ?db1 t = Some (n + 1)" by (simp add: g)
  from counters_run [OF this, of ops] obtain m where
    m: "counters (run ?db1 ops) t = Some m" "n + 1 \<le> m" by blast
  have "format_entry_id t m \<noteq> format_entry_id t n"
  proof
    assume "format_entry_id t m = format_entry_id t n"
    from format_entry_id_inj [OF this] m(2) assms(2) show False by simp
  qed
  with m show "\<exists>m. counters (run ?db1 ops) t = Some m \<and> n < m
           \<and> (m < 2 ^ 53 \<longrightarrow>
                fst (getNextEntryId (run ?db1 ops) t) = Inr (format_entry_id t m)
                \<and> format_entry_id t m \<noteq> format_entry_id t n)"
    by (intro exI [of _ m]) (simp add: getNextEntryId_Some)
qed


theorem counters_never_reused_witness:
  "counters store0 Bug_report = Some 1 \<and> (0::int) \<le> 1
   \<and> fst (getNextEntryId store0 Bug_report) = Inr ''BUG-001''
   \<and> entries (run (snd (getNextEntryId store0 Bug_report)) reuse_ops) = []
   \<and> counters (run (snd (getNextEntryId store0 Bug_report)) reuse_ops) Bug_report = Some 3
   \<and> fst (getNextEntryId (run (snd (getNextEntryId store0 Bug_report)) reuse_ops) Bug_report)
       = Inr ''BUG-003''"
proof -
  have p: "(0::int) \<le> 1" by simp
  note t = counters_never_reused [OF counters_store0 [of Bug_report] p,
      where entryId = "''BUG-002''" and ops = reuse_ops]
  from t have g: "getNextEntryId store0 Bug_report =
      (Inr (format_entry_id Bug_report 1), store0\<lparr>counters := (counters store0)(Bug_report \<mapsto> 1 + 1)\<rparr>)"
    by (elim conjE)
  from t obtain m where m: "counters (run (snd (getNextEntryId store0 Bug_report)) reuse_ops) Bug_report = Some m"
    and l: "m < 2 ^ 53 \<longrightarrow> fst (getNextEntryId (run (snd (getNextEntryId store0 Bug_report)) reuse_ops) Bug_report)
                  = Inr (format_entry_id Bug_report m)"
    by blast
  from m reuse_run(1) have "m = 3" by simp
  with l have "fst (getNextEntryId (run (snd (getNextEntryId store0 Bug_report)) reuse_ops) Bug_report)
       = Inr ''BUG-003''"
    by (simp add: format_bug_3)
  moreover from g have "fst (getNextEntryId store0 Bug_report) = Inr ''BUG-001''"
    by (simp add: format_examples)
  ultimately show ?thesis using counters_store0 [of Bug_report] p reuse_run by (intro conjI)
qed

subsection \<open>Adding and reading an attachment\<close>

lemma split_slash_segment: "CHR ''/'' \<notin> set s \<Longrightarrow> split_slash s = [s]"
  by (induction s) auto

lemma path_join_segment:
  assumes "CHR ''/'' \<notin> set s" and "s \<noteq> []" and "s \<noteq> ''.''" and "s \<noteq> ''..''"
  shows "path_join d s = d @ [s]"
  using assms by (simp add: path_join_def split_slash_segment path_step_def)

lemma safe_char_not_slash: "safe_char c \<Longrightarrow> c \<noteq> CHR ''/''"
  by (auto simp: safe_char_def)

lemma attachment_filename_segment:
  assumes "CHR ''/'' \<notin> set rnd"
  shows "path_join d (attachment_filename rnd name) = d @ [attachment_filename rnd name]"
proof (rule path_join_segment)
  let ?fn = "attachment_filename rnd name"
  have m: "CHR ''-'' \<in> set ?fn" by (simp add: attachment_filename_def Let_def)
  from m show "?fn \<noteq> []" "?fn \<noteq> ''.''" "?fn \<noteq> ''..''" by auto
  have "CHR ''/'' \<notin> set (take 6 (drop 2 rnd))"
    using assms by (meson in_set_dropD in_set_takeD)
  moreover have "CHR ''/'' \<notin> set (map (\<lambda>c. if safe_char c then c else CHR ''_'') name)"
    by (auto dest: safe_char_not_slash)
  ultimately show "CHR ''/'' \<notin> set ?fn" by (simp add: attachment_filename_def Let_def)
qed

lemma insert_attachment_Inr:
  assumes "i \<in> set (map er_entry_id (entries db))"
  shows "insert_attachment db now i fn file st b p =
     Inr (db\<lparr>attachments := attachments db @
            [attachment_row (next_rowid (attachments_seq db) (map ar_id (attachments db)))
               i fn now file st b p],
          attachments_seq := next_rowid (attachments_seq db) (map ar_id (attachments db))\<rparr>)"
  using assms by (simp add: insert_attachment_def Let_def attachment_row_def)

lemma find_new_by_name:
  assumes "filename_unused db i fn"
  shows "find (\<lambda>a. ar_entry_id a = i \<and> ar_filename a = fn)
           (attachments db @ [attachment_row rowid i fn now file st b p])
         = Some (attachment_row rowid i fn now file st b p)"
  by (rule find_append_new)
    (use assms in \<open>simp_all add: filename_unused_def list_all_iff attachment_row_def\<close>)

lemma find_new_by_id:
  "find (\<lambda>a. ar_id a = next_rowid seq (map ar_id rows))
           (rows @ [attachment_row (next_rowid seq (map ar_id rows)) i fn now file st b p])
         = Some (attachment_row (next_rowid seq (map ar_id rows)) i fn now file st b p)"
proof (rule find_append_new)
  show "\<forall>x\<in>set rows. \<not> ar_id x = next_rowid seq (map ar_id rows)"
    using next_rowid_fresh [of seq "map ar_id rows"] by (metis image_eqI set_map)
qed (simp add: attachment_row_def)

lemma addAttachment_blob:
  fixes now :: nat
  assumes "getStorageType db = blob" and "i \<in> set (map er_entry_id (entries db))"
    and "filename_unused db i (attachment_filename rnd (f_name file))"
  defines "rowid \<equiv> next_rowid (attachments_seq db) (map ar_id (attachments db))"
  defines "row \<equiv> attachment_row rowid i (attachment_filename rnd (f_name file)) now file blob
      (Some (f_buffer file)) None"
  shows "addAttachment db now rnd i file =
           (Inr (mapAttachment row), db\<lparr>attachments := attachments db @ [row],
              attachments_seq := rowid\<rparr>)"
  using assms(1)
  by (simp add: addAttachment_def Let_def insert_attachment_Inr [OF assms(2)]
      find_new_by_name [OF assms(3)] row_def rowid_def)

lemma mkdirSync_ok:
  assumes "\<not> list_ex (is_file f) (ancestors d)"
  shows "mkdirSync f d = Inr (\<lambda>q. if q \<in> set (ancestors d) then Some Dir else f q)"
  using assms by (simp add: mkdirSync_def)

lemma self_in_ancestors: "d \<noteq> [] \<Longrightarrow> d \<in> set (ancestors d)"
proof -
  assume "d \<noteq> []"
  then have "length d \<in> set [1..<Suc (length d)]" by (cases d) simp_all
  then have "take (length d) d \<in> set (ancestors d)" unfolding ancestors_def by (simp only: set_map image_eqI)
  then show ?thesis by simp
qed

lemma longer_not_ancestor: "d @ [s] \<notin> set (ancestors d)"
  by (auto simp: ancestors_def dest: arg_cong [where f = length])

lemma writeFileSync_after_mkdir:
  assumes "f (d @ [s]) \<noteq> Some Dir"
  defines "f1 \<equiv> (\<lambda>q. if q \<in> set (ancestors d) then Some Dir else f q)"
  shows "writeFileSync f1 (d @ [s]) b = Inr (f1(d @ [s] \<mapsto> File b))"
proof -
  have "\<not> is_dir f1 (d @ [s])"
    using assms(1) by (simp add: is_dir_def f1_def longer_not_ancestor)
  moreover have "is_dir f1 d"
    by (cases "d = []") (simp_all add: is_dir_def f1_def self_in_ancestors)
  ultimately show ?thesis by (simp add: writeFileSync_def)
qed

lemma addAttachment_filesystem:
  fixes now :: nat
  assumes "getStorageType db = filesystem" and "i \<in> set (map er_entry_id (entries db))"
    and "filename_unused db i (attachment_filename rnd (f_name file))"
    and "CHR ''/'' \<notin> set rnd"
    and "upload_path_free db i (attachment_filename rnd (f_name file))"
  defines "rowid \<equiv> next_rowid (attachments_seq db) (map ar_id (attachments db))"
  defines "dir \<equiv> path_join (getUploadsDir db) i"
  defines "filePath \<equiv> dir @ [attachment_filename rnd (f_name file)]"
  defines "row \<equiv> attachment_row rowid i (attachment_filename rnd (f_name file)) now file
      filesystem None (Some filePath)"
  shows "addAttachment db now rnd i file =
           (Inr (mapAttachment row),
            db\<lparr>fs := (\<lambda>q. if q \<in> set (ancestors dir) then Some Dir else fs db q)
                        (filePath \<mapsto> File (f_buffer file)),
               attachments := attachments db @ [row], attachments_seq := rowid\<rparr>)"
proof -
  let ?fn = "attachment_filename rnd (f_name file)"
  let ?f1 = "\<lambda>q. if q \<in> set (ancestors dir) then Some Dir else fs db q"
  from assms(5) have a: "\<not> list_ex (is_file (fs db)) (ancestors dir)"
    and b: "fs db (dir @ [?fn]) \<noteq> Some Dir"
    by (simp_all add: upload_path_free_def Let_def dir_def)
  have mk: "mkdirSync (fs db) (path_join (getUploadsDir db) i) = Inr ?f1"
    using mkdirSync_ok [OF a] by (simp add: dir_def)
  have pj: "path_join (path_join (getUploadsDir db) i) ?fn = filePath"
    by (simp add: attachment_filename_segment [OF assms(4)] filePath_def dir_def)
  have wr: "writeFileSync ?f1 filePath (f_buffer file) = Inr (?f1(filePath \<mapsto> File (f_buffer file)))"
    unfolding filePath_def
    by (rule writeFileSync_after_mkdir [where f = "fs db" and d = dir and s = ?fn, OF b])
  have i': "i \<in> set (map er_entry_id (entries (db\<lparr>fs := g\<rparr>)))" for g
    using assms(2) by simp
  have u': "filename_unused (db\<lparr>fs := g\<rparr>) i ?fn" for g
    using assms(3) by (simp add: filename_unused_def)
  show ?thesis
    using assms(1)
    by (simp add: addAttachment_def Let_def mk pj wr insert_attachment_Inr [OF i']
        find_new_by_name [OF u', simplified] row_def rowid_def)
qed


lemma store1b_facts:
  "map er_entry_id (entries store1b) = [''BUG-001'']"
  "attachments store1b = []"
  "attachments_seq store1b = 0"
  "getStorageType store1b = blob"
  "env_storage_type store1b = Some ''blob''"
  by (simp_all add: store1b_def createEntry_def getNextEntryId_def store0b_def initial_store_def
      format_examples bug_dto_def next_rowid_def Let_def getStorageType_def)

lemma store1_facts:
  "map er_entry_id (entries store1) = [''BUG-001'']"
  "attachments_seq store1 = 0"
  "getStorageType store1 = filesystem"
  "getUploadsDir store1 = [''srv'', ''app'', ''.devlog'', ''uploads'']"
  "fs store1 = fs store0"
  by (simp_all add: store1_def createEntry_def getNextEntryId_def store0_def initial_store_def
      format_examples bug_dto_def next_rowid_def Let_def getStorageType_def getUploadsDir_def)

lemma filenames:
  "attachment_filename ''0.abc123'' ''a.txt'' = ''abc123-a.txt''"
  "attachment_filename ''0.k3x9q2z7'' ''shot 1.png'' = ''k3x9q2-shot_1.png''"
  by (simp_all add: attachment_filename_def safe_char_def)

lemma store2b_facts:
  "map er_entry_id (entries store2b) = [''BUG-001'']"
  "attachments store2b =
     [attachment_row 1 ''BUG-001'' ''abc123-a.txt'' 6000 file_a blob (Some [1]) None]"
  "getStorageType store2b = blob"
proof -
  have e: "''BUG-001'' \<in> set (map er_entry_id (entries store1b))" by (simp add: store1b_facts)
  have u: "filename_unused store1b ''BUG-001'' (attachment_filename ''0.abc123'' (f_name file_a))"
    by (simp add: filename_unused_def store1b_facts)
  note r = addAttachment_blob [OF store1b_facts(4) e u, of 6000]
  have n: "f_name file_a = ''a.txt''" "f_buffer file_a = [1]" by (simp_all add: file_a_def)
  have s2: "store2b = store1b\<lparr>attachments :=
      [attachment_row 1 ''BUG-001'' ''abc123-a.txt'' 6000 file_a blob (Some [1]) None],
      attachments_seq := 1\<rparr>"
    unfolding store2b_def r by (simp add: store1b_facts next_rowid_def n filenames)
  show "map er_entry_id (entries store2b) = [''BUG-001'']"
    "attachments store2b =
     [attachment_row 1 ''BUG-001'' ''abc123-a.txt'' 6000 file_a blob (Some [1]) None]"
    "getStorageType store2b = blob"
    by (simp_all add: s2 store1b_facts getStorageType_def)
qed


lemma store_inv_store2b: "store_inv store2b"
  unfolding store2b_def store1b_def store0b_def
  by (intro store_inv_addAttachment store_inv_createEntry store_inv_initial)

lemma older_row_returned:
  "map_sum id at_id (fst (addAttachment store2b 7000 ''0.abc123'' ''BUG-001'' file_b)) = Inr 1"
  by code_simp

lemma new_row_stored:
  "map_sum id (map_option snd)
     (getAttachment (snd (addAttachment store2b 7000 ''0.abc123'' ''BUG-001'' file_b)) 2)
     = Inr (Some [2])"
  by code_simp

lemma older_bytes_read:
  "add_then_get store2b 7000 ''0.abc123'' ''BUG-001'' file_b = Inr (Some [1])"
  by (simp add: add_then_get_def addAttachment_def Let_def store2b_facts insert_attachment_def
      file_b_def filenames attachment_row_def mapAttachment_def getAttachment_def)

text \<open>
  Claim C7. The round trip fails on the code where the generated filename repeats.
  \<open>store2b\<close> is in blob mode and satisfies the constraints of the schema; its entry
  \<^verbatim>\<open>BUG-001\<close> has the attachment \<^verbatim>\<open>abc123-a.txt\<close> with the byte 1. When the file \<^verbatim>\<open>a.txt\<close>
  with the byte 2 is added under the same random prefix, the new row is stored with the
  byte 2 under \<open>id\<close> 2, but \<open>addAttachment\<close> reads the row back by \<open>entry_id\<close> and
  \<open>filename\<close> and returns the older row with \<open>id\<close> 1, and \<open>getAttachment\<close> on that \<open>id\<close>
  returns the byte 1, not the input.
\<close>

theorem addAttachment_returns_older_row:
  "store_inv store2b
   \<and> ''BUG-001'' \<in> set (map er_entry_id (entries store2b))
   \<and> getStorageType store2b = blob
   \<and> f_buffer file_b = [2]
   \<and> map_sum id at_id (fst (addAttachment store2b 7000 ''0.abc123'' ''BUG-001'' file_b)) = Inr 1
   \<and> add_then_get store2b 7000 ''0.abc123'' ''BUG-001'' file_b = Inr (Some [1])
   \<and> map_sum id (map_option snd)
         (getAttachment (snd (addAttachment store2b 7000 ''0.abc123'' ''BUG-001'' file_b)) 2)
       = Inr (Some [2])"
proof -
  have e: "''BUG-001'' \<in> set (map er_entry_id (entries store2b))"
    by (simp add: store2b_facts)
  have b: "f_buffer file_b = [2]" by (simp add: file_b_def)
  from store_inv_store2b e store2b_facts(3) b older_row_returned older_bytes_read new_row_stored
  show ?thesis by (intro conjI)
qed

text \<open>
  Where no attachment of the entry has the generated filename yet, the row read back is
  the row inserted, and the bytes read are the bytes of the input buffer.
\<close>

lemma addAttachment_roundtrip_fresh:
  assumes "entryId \<in> set (map er_entry_id (entries db))"
    and "filename_unused db entryId (attachment_filename rnd (f_name file))"
    and "getStorageType db = filesystem \<longrightarrow>
           CHR ''/'' \<notin> set rnd
           \<and> upload_path_free db entryId (attachment_filename rnd (f_name file))"
  shows "\<exists>att db'. addAttachment db now rnd entryId file = (Inr att, db')
           \<and> getAttachment db' (at_id att) = Inr (Some (att, f_buffer file))
           \<and> at_storageType att = getStorageType db
           \<and> at_entryId att = entryId
           \<and> add_then_get db now rnd entryId file = Inr (Some (f_buffer file))"
proof (cases "getStorageType db")
  case blob
  define rowid where "rowid = next_rowid (attachments_seq db) (map ar_id (attachments db))"
  define row where "row = attachment_row rowid entryId (attachment_filename rnd (f_name file))
      now file blob (Some (f_buffer file)) None"
  define db' where "db' = db\<lparr>attachments := attachments db @ [row], attachments_seq := rowid\<rparr>"
  have a: "addAttachment db now rnd entryId file = (Inr (mapAttachment row), db')"
    unfolding row_def rowid_def db'_def by (rule addAttachment_blob [OF blob assms(1,2)])
  have i: "at_id (mapAttachment row) = rowid"
    by (simp add: mapAttachment_def row_def attachment_row_def)
  have f: "find (\<lambda>a. ar_id a = rowid) (attachments db') = Some row"
    unfolding db'_def row_def rowid_def by (simp add: find_new_by_id)
  have g: "getAttachment db' (at_id (mapAttachment row)) =
      Inr (Some (mapAttachment row, f_buffer file))"
    unfolding i by (simp add: getAttachment_def f) (simp add: row_def attachment_row_def)
  show ?thesis
    using a g blob
    by (intro exI [of _ "mapAttachment row"] exI [of _ db'])
      (simp add: add_then_get_def mapAttachment_def row_def attachment_row_def)
next
  case filesystem
  with assms(3) have s: "CHR ''/'' \<notin> set rnd"
    and p: "upload_path_free db entryId (attachment_filename rnd (f_name file))" by simp_all
  define rowid where "rowid = next_rowid (attachments_seq db) (map ar_id (attachments db))"
  define dir where "dir = path_join (getUploadsDir db) entryId"
  define filePath where "filePath = dir @ [attachment_filename rnd (f_name file)]"
  define row where "row = attachment_row rowid entryId (attachment_filename rnd (f_name file))
      now file filesystem None (Some filePath)"
  define db' where "db' = db\<lparr>fs := (\<lambda>q. if q \<in> set (ancestors dir) then Some Dir else fs db q)
                        (filePath \<mapsto> File (f_buffer file)),
               attachments := attachments db @ [row], attachments_seq := rowid\<rparr>"
  have a: "addAttachment db now rnd entryId file = (Inr (mapAttachment row), db')"
    unfolding row_def rowid_def db'_def filePath_def dir_def
    by (rule addAttachment_filesystem [OF filesystem assms(1,2) s p])
  have i: "at_id (mapAttachment row) = rowid"
    by (simp add: mapAttachment_def row_def attachment_row_def)
  have f: "find (\<lambda>a. ar_id a = rowid) (attachments db') = Some row"
    unfolding db'_def row_def rowid_def by (simp add: find_new_by_id)
  have x: "fs db' filePath = Some (File (f_buffer file))" by (simp add: db'_def)
  have g: "getAttachment db' (at_id (mapAttachment row)) =
      Inr (Some (mapAttachment row, f_buffer file))"
    unfolding i
    by (simp add: getAttachment_def f)
      (simp add: row_def attachment_row_def existsSync_def readFileSync_def x)
  show ?thesis
    using a g filesystem
    by (intro exI [of _ "mapAttachment row"] exI [of _ db'])
      (simp add: add_then_get_def mapAttachment_def row_def attachment_row_def)
qed


lemma upload_path_free_store1:
  "upload_path_free store1 ''BUG-001'' ''k3x9q2-shot_1.png''"
  by code_simp

lemma addAttachment_roundtrip_examples:
  "''BUG-001'' \<in> set (map er_entry_id (entries store1))
   \<and> filename_unused store1 ''BUG-001'' (attachment_filename ''0.k3x9q2z7'' (f_name shot))
   \<and> getStorageType store1 = filesystem
   \<and> CHR ''/'' \<notin> set ''0.k3x9q2z7''
   \<and> upload_path_free store1 ''BUG-001'' (attachment_filename ''0.k3x9q2z7'' (f_name shot))
   \<and> add_then_get store1 6000 ''0.k3x9q2z7'' ''BUG-001'' shot = Inr (Some [137, 80, 78])
   \<and> ''BUG-001'' \<in> set (map er_entry_id (entries store1b))
   \<and> filename_unused store1b ''BUG-001'' (attachment_filename ''0.abc123'' (f_name file_a))
   \<and> getStorageType store1b = blob
   \<and> add_then_get store1b 6000 ''0.abc123'' ''BUG-001'' file_a = Inr (Some [1])"
proof -
  have n: "f_name shot = ''shot 1.png''" "f_buffer shot = [137, 80, 78]"
    "f_name file_a = ''a.txt''" "f_buffer file_a = [1]"
    by (simp_all add: shot_def file_a_def)
  have e: "''BUG-001'' \<in> set (map er_entry_id (entries store1))" by (simp add: store1_facts)
  have u: "filename_unused store1 ''BUG-001'' (attachment_filename ''0.k3x9q2z7'' (f_name shot))"
    by (simp add: filename_unused_def attachments_store1)
  have s: "CHR ''/'' \<notin> set ''0.k3x9q2z7''" by simp
  have p: "upload_path_free store1 ''BUG-001'' (attachment_filename ''0.k3x9q2z7'' (f_name shot))"
    by (simp add: n filenames upload_path_free_store1)
  have h: "getStorageType store1 = filesystem \<longrightarrow>
           CHR ''/'' \<notin> set ''0.k3x9q2z7''
           \<and> upload_path_free store1 ''BUG-001'' (attachment_filename ''0.k3x9q2z7'' (f_name shot))"
    using s p by simp
  from addAttachment_roundtrip_fresh [OF e u h, of 6000]
  have r1: "add_then_get store1 6000 ''0.k3x9q2z7'' ''BUG-001'' shot = Inr (Some [137, 80, 78])"
    by (auto simp: n)
  have eb: "''BUG-001'' \<in> set (map er_entry_id (entries store1b))" by (simp add: store1b_facts)
  have ub: "filename_unused store1b ''BUG-001'' (attachment_filename ''0.abc123'' (f_name file_a))"
    by (simp add: filename_unused_def store1b_facts)
  have hb: "getStorageType store1b = filesystem \<longrightarrow>
           CHR ''/'' \<notin> set ''0.abc123''
           \<and> upload_path_free store1b ''BUG-001'' (attachment_filename ''0.abc123'' (f_name file_a))"
    by (simp add: store1b_facts)
  from addAttachment_roundtrip_fresh [OF eb ub hb, of 6000]
  have r2: "add_then_get store1b 6000 ''0.abc123'' ''BUG-001'' file_a = Inr (Some [1])"
    by (auto simp: n)
  from e u store1_facts(3) s p r1 eb ub store1b_facts(4) r2 show ?thesis by (intro conjI)
qed

subsection \<open>Reading an attachment\<close>

lemma getAttachment_missing:
  "find (\<lambda>a. ar_id a = i) (attachments db) = None \<Longrightarrow> getAttachment db i = Inr None"
  by (simp add: getAttachment_def)

lemma getAttachment_blob_row:
  assumes "find (\<lambda>a. ar_id a = i) (attachments db) = Some row"
    and "ar_storage_type row = blob" and "ar_blob_data row = Some d"
  shows "getAttachment db i = Inr (Some (mapAttachment row, d))"
  using assms by (simp add: getAttachment_def)

lemma getAttachment_file_row:
  assumes "find (\<lambda>a. ar_id a = i) (attachments db) = Some row"
    and "ar_storage_type row = filesystem" and "ar_file_path row = Some p"
    and "\<not> is_dir (fs db) p"
  shows "getAttachment db i =
           (case fs db p of Some (File d) \<Rightarrow> Inr (Some (mapAttachment row, d)) | _ \<Rightarrow> Inr None)"
  using assms
  by (auto simp: getAttachment_def existsSync_def readFileSync_def is_dir_def
      split: option.splits node.splits)

lemma store_inv_store1: "store_inv store1"
  unfolding store1_def by (rule store_inv_createEntry [OF store_inv_store0])

lemma store_inv_store_a: "store_inv store_a"
  unfolding store_a_def by (rule store_inv_addAttachment [OF store_inv_store1])

lemma entry_dir_store1:
  "path_join [''srv'', ''app'', ''.devlog'', ''uploads''] ''BUG-001'' =
     [''srv'', ''app'', ''.devlog'', ''uploads'', ''BUG-001'']"
  by (simp add: path_join_segment)

lemma shot_path_not_root: "shot_path \<noteq> []"
  by (simp add: shot_path_def)

lemma store_a_eq:
  "store_a = store1\<lparr>fs := (\<lambda>q. if q \<in> set (ancestors
               [''srv'', ''app'', ''.devlog'', ''uploads'', ''BUG-001'']) then Some Dir
               else fs store1 q)(shot_path \<mapsto> File [137, 80, 78]),
             attachments := [shot_row], attachments_seq := 1\<rparr>"
proof -
  have n: "f_name shot = ''shot 1.png''" "f_buffer shot = [137, 80, 78]"
    by (simp_all add: shot_def)
  have e: "''BUG-001'' \<in> set (map er_entry_id (entries store1))" by (simp add: store1_facts)
  have u: "filename_unused store1 ''BUG-001'' (attachment_filename ''0.k3x9q2z7'' (f_name shot))"
    by (simp add: filename_unused_def attachments_store1)
  have s: "CHR ''/'' \<notin> set ''0.k3x9q2z7''" by simp
  have p: "upload_path_free store1 ''BUG-001'' (attachment_filename ''0.k3x9q2z7'' (f_name shot))"
    by (simp add: n filenames upload_path_free_store1)
  note r = addAttachment_filesystem [OF store1_facts(3) e u s p, of 6000]
  show ?thesis
    unfolding store_a_def r
    by (simp add: entry_dir_store1 n filenames attachments_store1 store1_facts next_rowid_def
        shot_row_def shot_path_def)
qed

lemma store_a_facts:
  "attachments store_a = [shot_row]"
  "fs store_a shot_path = Some (File [137, 80, 78])"
  "map er_entry_id (entries store_a) = [''BUG-001'']"
  "getUploadsDir store_a = [''srv'', ''app'', ''.devlog'', ''uploads'']"
  using store1_facts by (simp_all add: store_a_eq getUploadsDir_def)

lemma entry_dir_store_a:
  "fs store_a [''srv'', ''app'', ''.devlog'', ''uploads'', ''BUG-001''] = Some Dir"
proof -
  have "[''srv'', ''app'', ''.devlog'', ''uploads'', ''BUG-001'']
      \<in> set (ancestors [''srv'', ''app'', ''.devlog'', ''uploads'', ''BUG-001''])"
    by (rule self_in_ancestors) simp
  then show ?thesis by (simp add: store_a_eq shot_path_def)
qed

lemma shot_row_fields:
  "ar_id shot_row = 1" "ar_entry_id shot_row = ''BUG-001''"
  "ar_storage_type shot_row = filesystem" "ar_file_path shot_row = Some shot_path"
  "ar_blob_data shot_row = None"
  by (simp_all add: shot_row_def attachment_row_def)


lemma mapAttachment_fields:
  "at_id (mapAttachment row) = ar_id row"
  "at_entryId (mapAttachment row) = ar_entry_id row"
  "at_filename (mapAttachment row) = ar_filename row"
  "at_originalName (mapAttachment row) = ar_original_name row"
  "at_mimeType (mapAttachment row) = ar_mime_type row"
  "at_sizeBytes (mapAttachment row) = ar_size_bytes row"
  "at_storageType (mapAttachment row) = ar_storage_type row"
  "at_filePath (mapAttachment row) = ar_file_path row"
  "at_createdAt (mapAttachment row) = ar_created_at row"
  by (simp_all add: mapAttachment_def)

text \<open>
  Where no directory stands at the path of an attachment, \<open>getAttachment\<close> does not throw:
  it returns null exactly when no row has the \<open>id\<close> or the row is a filesystem row whose
  file is not on disk, and the row with its bytes otherwise.
\<close>

lemma getAttachment_without_directory:
  assumes "store_inv db" and "no_directory_at_file_paths db"
  shows "(getAttachment db i = Inr None \<longleftrightarrow>
            (case find (\<lambda>a. ar_id a = i) (attachments db) of
               None \<Rightarrow> True
             | Some row \<Rightarrow>
                 ar_storage_type row = filesystem
                 \<and> (case ar_file_path row of None \<Rightarrow> True | Some p \<Rightarrow> fs db p = None)))
       \<and> (\<forall>e. getAttachment db i \<noteq> Inl e)
       \<and> (\<forall>row. find (\<lambda>a. ar_id a = i) (attachments db) = Some row \<longrightarrow>
             (case ar_storage_type row of
                blob \<Rightarrow>
                  (\<exists>d. ar_blob_data row = Some d
                     \<and> getAttachment db i = Inr (Some (mapAttachment row, d)))
              | filesystem \<Rightarrow>
                  (\<exists>p. ar_file_path row = Some p
                     \<and> (\<forall>d. fs db p = Some (File d) \<longrightarrow>
                            getAttachment db i = Inr (Some (mapAttachment row, d))))))"
proof (cases "find (\<lambda>a. ar_id a = i) (attachments db)")
  case None
  then show ?thesis by (simp add: getAttachment_missing)
next
  case (Some row)
  then have m: "row \<in> set (attachments db)" by (auto simp: find_Some_iff)
  with assms(1) have sc: "storage_consistent row" by (simp add: store_inv_def list_all_iff)
  show ?thesis
  proof (cases "ar_storage_type row")
    case blob
    with sc obtain d where d: "ar_blob_data row = Some d"
      by (auto simp: storage_consistent_def)
    from getAttachment_blob_row [OF Some blob d] Some blob d show ?thesis by simp
  next
    case filesystem
    with sc obtain p where p: "ar_file_path row = Some p"
      by (auto simp: storage_consistent_def)
    from assms(2) m p have nd: "\<not> is_dir (fs db) p"
      by (auto simp: no_directory_at_file_paths_def list_all_iff)
    then have "fs db p \<noteq> Some Dir" by (simp add: is_dir_def)
    with getAttachment_file_row [OF Some filesystem p nd] Some filesystem p show ?thesis
      by (auto split: option.splits node.splits)
  qed
qed


lemma getAttachment_without_directory_examples:
  "store_inv store_gone \<and> no_directory_at_file_paths store_gone
   \<and> find (\<lambda>a. ar_id a = 1) (attachments store_gone) = Some shot_row
   \<and> ar_storage_type shot_row = filesystem \<and> ar_file_path shot_row = Some shot_path
   \<and> fs store_gone shot_path = None
   \<and> getAttachment store_gone 1 = Inr None
   \<and> getAttachment store_gone 2 = Inr None
   \<and> store_inv store_a \<and> no_directory_at_file_paths store_a
   \<and> getAttachment store_a 1 = Inr (Some (mapAttachment shot_row, [137, 80, 78]))"
proof -
  have i: "store_inv store_gone" by (simp add: store_gone_def store_inv_store_a)
  have d: "no_directory_at_file_paths store_gone"
    by (simp add: no_directory_at_file_paths_def store_gone_def store_a_facts shot_row_fields
        is_dir_def shot_path_not_root)
  have f: "find (\<lambda>a. ar_id a = 1) (attachments store_gone) = Some shot_row"
    by (simp add: store_gone_def store_a_facts shot_row_fields)
  have f2: "find (\<lambda>a. ar_id a = 2) (attachments store_gone) = None"
    by (simp add: store_gone_def store_a_facts shot_row_fields)
  have x: "fs store_gone shot_path = None" by (simp add: store_gone_def)
  from getAttachment_without_directory [OF i d, of 1]
  have g1: "getAttachment store_gone 1 = Inr None"
    by (simp add: f shot_row_fields x)
  from getAttachment_without_directory [OF i d, of 2]
  have g2: "getAttachment store_gone 2 = Inr None"
    by (simp add: f2)
  have da: "no_directory_at_file_paths store_a"
    by (simp add: no_directory_at_file_paths_def store_a_facts shot_row_fields
        is_dir_def shot_path_not_root)
  have fa: "find (\<lambda>a. ar_id a = 1) (attachments store_a) = Some shot_row"
    by (simp add: store_a_facts shot_row_fields)
  from getAttachment_without_directory [OF store_inv_store_a da, of 1]
  have g3: "getAttachment store_a 1 = Inr (Some (mapAttachment shot_row, [137, 80, 78]))"
    by (simp add: fa shot_row_fields store_a_facts)
  from i d f shot_row_fields(3,4) x g1 g2 store_inv_store_a da g3 show ?thesis by (intro conjI)
qed



subsection \<open>Deleting an entry\<close>

lemma is_file_try_unlink: "is_file (try_unlink f p) q \<longleftrightarrow> is_file f q \<and> q \<noteq> p"
  by (auto simp: try_unlink_def unlinkSync_def is_file_def split: option.splits node.splits)

lemma is_file_unlink_files:
  "is_file (unlink_files f atts) q \<longleftrightarrow>
     is_file f q \<and> Some q \<notin> set (map ar_file_path atts)"
proof (induction atts arbitrary: f)
  case Nil
  then show ?case by (simp add: unlink_files_def)
next
  case (Cons a atts)
  have "unlink_files f (a # atts) =
      unlink_files (case ar_file_path a of None \<Rightarrow> f | Some p \<Rightarrow> try_unlink f p) atts"
    by (simp add: unlink_files_def)
  then show ?case
    by (cases "ar_file_path a") (auto simp: Cons.IH is_file_try_unlink)
qed

lemma is_file_rmSync: "is_file (rmSync f d) q \<longleftrightarrow> is_file f q \<and> \<not> under d q"
  by (simp add: rmSync_def is_file_def)

lemma fs_deleteEntry:
  "fs (snd (deleteEntry db i)) =
     rmSync (unlink_files (fs db)
               (filter (\<lambda>a. ar_entry_id a = i \<and> ar_storage_type a = filesystem) (attachments db)))
       (path_join (getUploadsDir db) i)"
  by (simp add: deleteEntry_def Let_def unlink_files_def)

lemma getEntry_filter_other:
  assumes "other \<noteq> i"
  shows "find (\<lambda>e. er_entry_id e = other) (filter (\<lambda>e. er_entry_id e \<noteq> i) rows)
           = find (\<lambda>e. er_entry_id e = other) rows"
  using assms by (induction rows) auto

lemma filter_other_attachments:
  assumes "other \<noteq> i"
  shows "filter (\<lambda>a. ar_entry_id a \<noteq> i \<and> ar_entry_id a = other) rows
           = filter (\<lambda>a. ar_entry_id a = other) rows"
  using assms by (induction rows) auto

lemma find_filter_none:
  assumes "\<forall>x \<in> set xs. P x \<longrightarrow> \<not> Q x"
  shows "find P (filter Q xs) = None"
  using assms by (induction xs) auto

lemma distinct_ids_same_row:
  assumes "distinct (map ar_id rows)" and "a \<in> set rows" and "b \<in> set rows"
    and "ar_id a = ar_id b"
  shows "a = b"
  using assms by (meson distinct_map inj_onD)

lemma file_gone_after_deleteEntry:
  assumes "a \<in> set (attachments db)" and "ar_entry_id a = i"
    and "ar_storage_type a = filesystem" and "ar_file_path a = Some p"
  shows "\<not> is_file (fs (snd (deleteEntry db i))) p"
proof -
  let ?atts = "filter (\<lambda>a. ar_entry_id a = i \<and> ar_storage_type a = filesystem) (attachments db)"
  from assms(1-3) have "a \<in> set ?atts" by simp
  then have "ar_file_path a \<in> set (map ar_file_path ?atts)" by (simp only: set_map image_eqI)
  then have "\<not> is_file (unlink_files (fs db) ?atts) p"
    by (simp only: is_file_unlink_files assms(4) simp_thms)
  then show ?thesis by (simp only: fs_deleteEntry is_file_rmSync simp_thms)
qed


text \<open>
  Claim C6. On a store that satisfies the constraints of the schema, \<open>deleteEntry\<close> returns
  true exactly when an entry has the identifier. Afterwards \<open>getEntry\<close> on the identifier
  reports not-found; every attachment row of the entry is gone and \<open>getAttachment\<close> on
  its \<open>id\<close> reports not-found; no file is left at the path of any filesystem-backed
  attachment of the entry; nothing is left at or below the upload directory of the
  entry; every other entry is as it was.
\<close>

theorem deleteEntry_cascade:
  assumes "store_inv db"
  shows "fst (deleteEntry db entryId) = (entryId \<in> set (map er_entry_id (entries db)))
     \<and> getEntry (snd (deleteEntry db entryId)) entryId = None
     \<and> entryId \<notin> set (map er_entry_id (entries (snd (deleteEntry db entryId))))
     \<and> (\<forall>a \<in> set (attachments db). ar_entry_id a = entryId \<longrightarrow>
           a \<notin> set (attachments (snd (deleteEntry db entryId)))
           \<and> getAttachment (snd (deleteEntry db entryId)) (ar_id a) = Inr None)
     \<and> (\<forall>a \<in> set (attachments db).
           ar_entry_id a = entryId \<and> ar_storage_type a = filesystem \<longrightarrow>
           (\<exists>p. ar_file_path a = Some p
              \<and> \<not> is_file (fs (snd (deleteEntry db entryId))) p))
     \<and> (\<forall>p. under (path_join (getUploadsDir db) entryId) p \<longrightarrow>
           fs (snd (deleteEntry db entryId)) p = None)
     \<and> (\<forall>other. other \<noteq> entryId \<longrightarrow>
           getEntry (snd (deleteEntry db entryId)) other = getEntry db other)
     \<and> store_inv (snd (deleteEntry db entryId))"
proof -
  let ?db = "snd (deleteEntry db entryId)"
  note t = deleteEntry_tables [of db entryId]
  from assms have d3: "distinct (map ar_id (attachments db))"
    and sc: "\<forall>a \<in> set (attachments db). storage_consistent a"
    by (simp_all add: store_inv_def list_all_iff)
  have gone: "\<forall>a \<in> set (attachments ?db). ar_entry_id a \<noteq> entryId"
  proof (cases "entryId \<in> set (map er_entry_id (entries db))")
    case True
    then show ?thesis by (simp add: t(2))
  next
    case False
    from store_inv_no_orphans [OF assms False] show ?thesis
      by (simp add: t(2) False filter_empty_conv)
  qed
  have sub: "set (attachments ?db) \<subseteq> set (attachments db)" by (simp add: t(2))
  have 1: "fst (deleteEntry db entryId) = (entryId \<in> set (map er_entry_id (entries db)))"
    by (rule t(4))
  have 3: "entryId \<notin> set (map er_entry_id (entries ?db))" by (auto simp: t(1))
  then have "find (\<lambda>e. er_entry_id e = entryId) (entries ?db) = None"
    by (auto simp: find_None_iff)
  then have 2: "getEntry ?db entryId = None" by (simp add: getEntry_def)
  have 4: "\<forall>a \<in> set (attachments db). ar_entry_id a = entryId \<longrightarrow>
           a \<notin> set (attachments ?db) \<and> getAttachment ?db (ar_id a) = Inr None"
  proof (intro ballI impI conjI)
    fix a assume a: "a \<in> set (attachments db)" "ar_entry_id a = entryId"
    from gone a(2) show "a \<notin> set (attachments ?db)" by auto
    have "\<forall>b \<in> set (attachments ?db). ar_id b \<noteq> ar_id a"
    proof
      fix b assume b: "b \<in> set (attachments ?db)"
      show "ar_id b \<noteq> ar_id a"
      proof
        assume "ar_id b = ar_id a"
        with distinct_ids_same_row [OF d3 _ a(1), of b] b sub have "b = a" by auto
        with gone b a(2) show False by auto
      qed
    qed
    then have "find (\<lambda>b. ar_id b = ar_id a) (attachments ?db) = None"
      by (auto simp: find_None_iff)
    then show "getAttachment ?db (ar_id a) = Inr None" by (rule getAttachment_missing)
  qed
  have 5: "\<forall>a \<in> set (attachments db).
           ar_entry_id a = entryId \<and> ar_storage_type a = filesystem \<longrightarrow>
           (\<exists>p. ar_file_path a = Some p \<and> \<not> is_file (fs ?db) p)"
  proof (intro ballI impI)
    fix a assume a: "a \<in> set (attachments db)"
      and b: "ar_entry_id a = entryId \<and> ar_storage_type a = filesystem"
    from sc a have "storage_consistent a" by simp
    with b obtain p where p: "ar_file_path a = Some p"
      by (auto simp: storage_consistent_def)
    from file_gone_after_deleteEntry [OF a _ _ p] b have "\<not> is_file (fs ?db) p" by simp
    with p show "\<exists>p. ar_file_path a = Some p \<and> \<not> is_file (fs ?db) p" by simp
  qed
  have 6: "\<forall>p. under (path_join (getUploadsDir db) entryId) p \<longrightarrow> fs ?db p = None"
    by (simp add: fs_deleteEntry rmSync_def)
  have 7: "\<forall>other. other \<noteq> entryId \<longrightarrow> getEntry ?db other = getEntry db other"
  proof (intro allI impI)
    fix other assume ne: "other \<noteq> entryId"
    have "filter (\<lambda>a. ar_entry_id a = other) (attachments ?db)
        = filter (\<lambda>a. ar_entry_id a = other) (attachments db)"
      by (simp add: t(2) filter_other_attachments [OF ne])
    then show "getEntry ?db other = getEntry db other"
      by (simp add: getEntry_def t(1) getEntry_filter_other [OF ne] cong: option.case_cong)
  qed
  from 1 2 3 4 5 6 7 store_inv_deleteEntry [OF assms, of entryId] show ?thesis by (intro conjI)
qed


theorem deleteEntry_cascade_witness:
  "store_inv store_a
   \<and> ''BUG-001'' \<in> set (map er_entry_id (entries store_a))
   \<and> shot_row \<in> set (attachments store_a)
   \<and> ar_entry_id shot_row = ''BUG-001'' \<and> ar_storage_type shot_row = filesystem
   \<and> ar_file_path shot_row = Some shot_path
   \<and> is_file (fs store_a) shot_path
   \<and> fs store_a [''srv'', ''app'', ''.devlog'', ''uploads'', ''BUG-001''] = Some Dir
   \<and> fst (deleteEntry store_a ''BUG-001'')
   \<and> getEntry (snd (deleteEntry store_a ''BUG-001'')) ''BUG-001'' = None
   \<and> getAttachment (snd (deleteEntry store_a ''BUG-001'')) 1 = Inr None
   \<and> \<not> is_file (fs (snd (deleteEntry store_a ''BUG-001''))) shot_path
   \<and> fs (snd (deleteEntry store_a ''BUG-001''))
         [''srv'', ''app'', ''.devlog'', ''uploads'', ''BUG-001''] = None"
proof -
  let ?db = "snd (deleteEntry store_a ''BUG-001'')"
  let ?dir = "[''srv'', ''app'', ''.devlog'', ''uploads'', ''BUG-001'']"
  note t = deleteEntry_cascade [OF store_inv_store_a, of "''BUG-001''"]
  have e: "''BUG-001'' \<in> set (map er_entry_id (entries store_a))" by (simp add: store_a_facts)
  have m: "shot_row \<in> set (attachments store_a)" by (simp add: store_a_facts)
  have f: "is_file (fs store_a) shot_path" by (simp add: is_file_def store_a_facts)
  have d: "path_join (getUploadsDir store_a) ''BUG-001'' = ?dir"
    by (simp add: store_a_facts entry_dir_store1)
  from t e have 1: "fst (deleteEntry store_a ''BUG-001'')" by simp
  from t have 2: "getEntry ?db ''BUG-001'' = None" by (elim conjE)
  from t have "\<forall>a \<in> set (attachments store_a). ar_entry_id a = ''BUG-001'' \<longrightarrow>
           a \<notin> set (attachments ?db) \<and> getAttachment ?db (ar_id a) = Inr None"
    by (elim conjE)
  with m have 3: "getAttachment ?db 1 = Inr None" by (auto simp: shot_row_fields)
  from t have "\<forall>a \<in> set (attachments store_a).
           ar_entry_id a = ''BUG-001'' \<and> ar_storage_type a = filesystem \<longrightarrow>
           (\<exists>p. ar_file_path a = Some p \<and> \<not> is_file (fs ?db) p)"
    by (elim conjE)
  with m have 4: "\<not> is_file (fs ?db) shot_path" by (auto simp: shot_row_fields)
  from t have "\<forall>p. under (path_join (getUploadsDir store_a) ''BUG-001'') p \<longrightarrow> fs ?db p = None"
    by (elim conjE)
  then have "under ?dir ?dir \<longrightarrow> fs ?db ?dir = None" unfolding d by (rule spec)
  then have 5: "fs ?db ?dir = None" by (simp add: under_def)
  from store_inv_store_a e m shot_row_fields(2,3,4) f entry_dir_store_a 1 2 3 4 5
  show ?thesis by (intro conjI)
qed

end
